theory Spec2Isabelle
  imports Main "HOL-Library.Word"
begin

section \<open>The email tracking server: data model\<close>

text \<open>
  The server of \<^verbatim>\<open>tracking_server.py\<close> keeps two SQLite tables, one per database
  file. A row is a record of its columns; a column that the schema leaves unset when the
  row is created (or that a handler overwrites with a value that may be \<^verbatim>\<open>None\<close>) is an
  \<open>option\<close>, \<open>None\<close> being SQL \<^verbatim>\<open>NULL\<close>. The columns written once by the component that
  issues identifiers hold a value of their declared type. A table is a map from its
  primary key to the row. Python integers are unbounded, hence \<open>int\<close>.
\<close>

type_synonym timestamp = nat

record email_row =
  recipient_email :: string
  subject :: string
  sent_at :: timestamp
  opened_at :: "timestamp option"
  open_count :: "int option"
  user_agent :: "string option"
  ip_address :: "string option"

record link_row =
  original_url :: string
  email_id :: string
  link_recipient_email :: string
  created_at :: timestamp
  click_count :: "int option"
  last_clicked :: "timestamp option"
  link_user_agent :: "string option"
  link_ip_address :: "string option"

record database =
  email_tracking :: "string \<rightharpoonup> email_row"
  link_tracking :: "string \<rightharpoonup> link_row"

text \<open>
  What a handler reads from the ambient Flask request: the \<^verbatim>\<open>User-Agent\<close> header, which
  may be missing, and \<^verbatim>\<open>request.remote_addr\<close>, which may be \<^verbatim>\<open>None\<close>.
\<close>

record request =
  header_user_agent :: "string option"
  remote_addr :: "string option"

text \<open>\<^verbatim>\<open>request.headers.get('User-Agent', 'Unknown')\<close>\<close>

definition headers_get_user_agent :: "request \<Rightarrow> string" where
  "headers_get_user_agent req =
     (case header_user_agent req of None \<Rightarrow> ''Unknown'' | Some ua \<Rightarrow> ua)"

text \<open>
  The three shapes of value the two handlers return: \<^verbatim>\<open>Response(data, mimetype=m)\<close>,
  \<^verbatim>\<open>redirect(url)\<close> and the pair \<^verbatim>\<open>(body, status)\<close>. Flask gives the first the status 200
  and the second the status 302 with the URL as its \<^verbatim>\<open>Location\<close>.
\<close>

datatype response =
    Response "8 word list" string
  | Redirect string
  | Body_Status string nat

fun status_code :: "response \<Rightarrow> nat" where
  "status_code (Response _ _) = 200"
| "status_code (Redirect _) = 302"
| "status_code (Body_Status _ s) = s"

fun is_redirect :: "response \<Rightarrow> bool" where
  "is_redirect (Redirect _) = True"
| "is_redirect _ = False"

text \<open>The 1x1 transparent GIF, byte for byte.\<close>

definition TRACKING_PIXEL :: "8 word list" where
  "TRACKING_PIXEL =
     [0x47, 0x49, 0x46, 0x38, 0x39, 0x61, 0x01, 0x00, 0x01, 0x00, 0x80, 0x00, 0x00,
      0x00, 0x00, 0x00, 0x00, 0x00, 0x00, 0x21, 0xf9, 0x04, 0x01, 0x00, 0x00, 0x00,
      0x00, 0x2c, 0x00, 0x00, 0x00, 0x00, 0x01, 0x00, 0x01, 0x00, 0x00, 0x02, 0x02,
      0x44, 0x01, 0x00, 0x3b]"

subsection \<open>Store operations and their failures\<close>

text \<open>
  Every call into \<^verbatim>\<open>sqlite3\<close> may raise. A request runs under a fault predicate that says
  which store operation, if reached, raises; the handlers' \<^verbatim>\<open>try\<close> blocks then return the
  exception as a value. This covers every reason the store has to refuse an operation:
  a file that cannot be opened, a locked database, an I/O error, or an integer outside
  the 64-bit range of an SQLite \<^verbatim>\<open>INTEGER\<close> handed to the \<^verbatim>\<open>UPDATE\<close>. The other
  exceptions the handlers can meet are Python's \<^verbatim>\<open>TypeError\<close> for \<^verbatim>\<open>None + 1\<close> and the
  \<^verbatim>\<open>ValueError\<close> with which \<^verbatim>\<open>redirect\<close> refuses a URL.
\<close>

datatype store_op = Connect | Execute_Select | Execute_Update | Commit

datatype exn = OperationalError store_op | TypeError | ValueError

type_synonym faults = "store_op \<Rightarrow> bool"

definition no_faults :: faults where
  "no_faults = (\<lambda>_. False)"

text \<open>
  \<^verbatim>\<open>SELECT open_count FROM email_tracking WHERE tracking_id = ?\<close> followed by
  \<^verbatim>\<open>fetchone()\<close>: \<open>None\<close> when no row matches, else the one-column row.
\<close>

definition select_open_count :: "database \<Rightarrow> string \<Rightarrow> int option option" where
  "select_open_count db tracking_id = map_option open_count (email_tracking db tracking_id)"

text \<open>Python's \<^verbatim>\<open>x or 0\<close> on a nullable integer: \<^verbatim>\<open>None\<close> and \<^verbatim>\<open>0\<close> are falsy.\<close>

fun or_zero :: "int option \<Rightarrow> int" where
  "or_zero None = 0"
| "or_zero (Some n) = (if n = 0 then 0 else n)"

text \<open>
  \<^verbatim>\<open>UPDATE email_tracking SET opened_at = ?, open_count = ?, user_agent = ?,
  ip_address = ? WHERE tracking_id = ?\<close>: rewrites the four columns of the matching row,
  and does nothing when no row matches.
\<close>

definition update_email_tracking ::
  "database \<Rightarrow> timestamp \<Rightarrow> int \<Rightarrow> string \<Rightarrow> string option \<Rightarrow> string \<Rightarrow> database" where
  "update_email_tracking db now n ua ip tracking_id =
     (case email_tracking db tracking_id of
        None \<Rightarrow> db
      | Some r \<Rightarrow>
          db\<lparr>email_tracking := (email_tracking db)(tracking_id \<mapsto>
               r\<lparr>opened_at := Some now, open_count := Some n,
                 user_agent := Some ua, ip_address := ip\<rparr>)\<rparr>)"

text \<open>
  \<^verbatim>\<open>SELECT original_url, click_count FROM link_tracking WHERE link_id = ?\<close> and
  \<^verbatim>\<open>fetchone()\<close>.
\<close>

definition select_url_click_count :: "database \<Rightarrow> string \<Rightarrow> (string \<times> int option) option" where
  "select_url_click_count db link_id =
     map_option (\<lambda>l. (original_url l, click_count l)) (link_tracking db link_id)"

text \<open>
  \<^verbatim>\<open>UPDATE link_tracking SET click_count = ?, last_clicked = ?, user_agent = ?,
  ip_address = ? WHERE link_id = ?\<close>
\<close>

definition update_link_tracking ::
  "database \<Rightarrow> int \<Rightarrow> timestamp \<Rightarrow> string \<Rightarrow> string option \<Rightarrow> string \<Rightarrow> database" where
  "update_link_tracking db n now ua ip link_id =
     (case link_tracking db link_id of
        None \<Rightarrow> db
      | Some l \<Rightarrow>
          db\<lparr>link_tracking := (link_tracking db)(link_id \<mapsto>
               l\<lparr>click_count := Some n, last_clicked := Some now,
                 link_user_agent := Some ua, link_ip_address := ip\<rparr>)\<rparr>)"

section \<open>The open tracker\<close>

text \<open>
  The \<^verbatim>\<open>try\<close> block of \<^verbatim>\<open>track_email\<close>. The update reaches the database file at
  \<^verbatim>\<open>conn.commit()\<close>; an exception before that leaves the connection to be dropped with
  its transaction rolled back, so the stored state is the one before the request.
\<close>

definition track_email_try ::
  "faults \<Rightarrow> request \<Rightarrow> timestamp \<Rightarrow> string \<Rightarrow> database \<Rightarrow> (exn + unit) \<times> database" where
  "track_email_try fails req now tracking_id db =
     (let ua = headers_get_user_agent req;
          ip = remote_addr req
      in if fails Connect then (Inl (OperationalError Connect), db)
         else if fails Execute_Select then (Inl (OperationalError Execute_Select), db)
         else (case select_open_count db tracking_id of
                 Some result0 \<Rightarrow>
                   (let n = or_zero result0
                    in if fails Execute_Update then (Inl (OperationalError Execute_Update), db)
                       else if fails Commit then (Inl (OperationalError Commit), db)
                       else (Inr (), update_email_tracking db now (n + 1) ua ip tracking_id))
               | None \<Rightarrow> (Inr (), db)))"

text \<open>
  \<^verbatim>\<open>track_email\<close>: whatever the \<^verbatim>\<open>try\<close> block did, and whether or not the \<^verbatim>\<open>except\<close>
  clause ran, control reaches the final \<^verbatim>\<open>return\<close>.
\<close>

definition track_email ::
  "faults \<Rightarrow> request \<Rightarrow> timestamp \<Rightarrow> string \<Rightarrow> database \<Rightarrow> response \<times> database" where
  "track_email fails req now tracking_id db =
     (case track_email_try fails req now tracking_id db of
        (Inr _, db') \<Rightarrow> (Response TRACKING_PIXEL ''image/gif'', db')
      | (Inl e, db') \<Rightarrow> (Response TRACKING_PIXEL ''image/gif'', db'))"

section \<open>The click tracker\<close>

text \<open>
  \<^verbatim>\<open>redirect(location)\<close> builds a response whose \<^verbatim>\<open>Location\<close> header is the URL. A header
  value may not hold a carriage return or a line feed: for such a URL the call raises
  \<^verbatim>\<open>ValueError\<close>.
\<close>

definition redirect :: "string \<Rightarrow> exn + response" where
  "redirect location =
     (if CHR 0x0D \<in> set location \<or> CHR 0x0A \<in> set location then Inl ValueError
      else Inr (Redirect location))"

text \<open>
  \<^verbatim>\<open>track_link_click\<close>. The argument tuple of the \<^verbatim>\<open>UPDATE\<close> is evaluated before the
  statement runs, so \<^verbatim>\<open>click_count + 1\<close> on a \<^verbatim>\<open>NULL\<close> count raises before anything is
  written. The call of \<^verbatim>\<open>redirect\<close> comes after \<^verbatim>\<open>conn.commit()\<close> and still inside the
  \<^verbatim>\<open>try\<close>: when it raises, the click has been counted.
\<close>

definition track_link_click_try ::
  "faults \<Rightarrow> request \<Rightarrow> timestamp \<Rightarrow> string \<Rightarrow> database \<Rightarrow> (exn + response) \<times> database" where
  "track_link_click_try fails req now link_id db =
     (let ua = headers_get_user_agent req;
          ip = remote_addr req
      in if fails Connect then (Inl (OperationalError Connect), db)
         else if fails Execute_Select then (Inl (OperationalError Execute_Select), db)
         else (case select_url_click_count db link_id of
                 Some (url, cc) \<Rightarrow>
                   (case cc of
                      None \<Rightarrow> (Inl TypeError, db)
                    | Some n \<Rightarrow>
                        if fails Execute_Update then (Inl (OperationalError Execute_Update), db)
                        else if fails Commit then (Inl (OperationalError Commit), db)
                        else (redirect url,
                              update_link_tracking db (n + 1) now ua ip link_id))
               | None \<Rightarrow> (Inr (Body_Status ''Link not found'' 404), db)))"

definition track_link_click ::
  "faults \<Rightarrow> request \<Rightarrow> timestamp \<Rightarrow> string \<Rightarrow> database \<Rightarrow> response \<times> database" where
  "track_link_click fails req now link_id db =
     (case track_link_click_try fails req now link_id db of
        (Inr resp, db') \<Rightarrow> (resp, db')
      | (Inl e, db') \<Rightarrow> (Body_Status ''Error processing link'' 500, db'))"

section \<open>Sequences of requests\<close>

text \<open>
  One request is its fault predicate, its request metadata and the value of
  \<^verbatim>\<open>datetime.now()\<close> at its update. Requests handled one after the other thread the
  database through the handler.
\<close>

record event =
  ev_faults :: faults
  ev_request :: request
  ev_now :: timestamp

fun track_email_seq :: "event list \<Rightarrow> string \<Rightarrow> database \<Rightarrow> response list \<times> database" where
  "track_email_seq [] tracking_id db = ([], db)"
| "track_email_seq (e # es) tracking_id db =
     (case track_email (ev_faults e) (ev_request e) (ev_now e) tracking_id db of
        (resp, db') \<Rightarrow>
          (case track_email_seq es tracking_id db' of
             (resps, db'') \<Rightarrow> (resp # resps, db'')))"

text \<open>
  The two routes of the core, \<^verbatim>\<open>/track/<tracking_id>\<close> and \<^verbatim>\<open>/click/<link_id>\<close>, and
  the server handling a list of requests to either, one after the other.
\<close>

datatype route = Track string | Click string

fun serve :: "route \<Rightarrow> event \<Rightarrow> database \<Rightarrow> response \<times> database" where
  "serve (Track tracking_id) e db =
     track_email (ev_faults e) (ev_request e) (ev_now e) tracking_id db"
| "serve (Click link_id) e db =
     track_link_click (ev_faults e) (ev_request e) (ev_now e) link_id db"

fun serve_all :: "(route \<times> event) list \<Rightarrow> database \<Rightarrow> database" where
  "serve_all [] db = db"
| "serve_all ((rt, e) # evs) db = serve_all evs (snd (serve rt e db))"

text \<open>A request under which no store operation fails.\<close>

definition store_ok :: "faults \<Rightarrow> bool" where
  "store_ok fails =
     (\<not> fails Connect \<and> \<not> fails Execute_Select \<and> \<not> fails Execute_Update \<and> \<not> fails Commit)"

text \<open>The open requests for one identifier, in a list of requests, that meet no failure.\<close>

definition applied_opens :: "string \<Rightarrow> (route \<times> event) list \<Rightarrow> nat" where
  "applied_opens tracking_id evs =
     length (filter (\<lambda>(rt, e). rt = Track tracking_id \<and> store_ok (ev_faults e)) evs)"

text \<open>
  A row as the \<^verbatim>\<open>CREATE TABLE\<close> statements leave it when it is inserted: the timestamp of
  the last event is \<^verbatim>\<open>NULL\<close>, and the counter is its default 0, or \<^verbatim>\<open>NULL\<close> when the
  insert says so.
\<close>

definition fresh_email_row :: "email_row \<Rightarrow> bool" where
  "fresh_email_row r = (opened_at r = None \<and> (open_count r = Some 0 \<or> open_count r = None))"

definition fresh_link_row :: "link_row \<Rightarrow> bool" where
  "fresh_link_row l = (last_clicked l = None \<and> (click_count l = Some 0 \<or> click_count l = None))"

text \<open>The invariants of the two record types; a \<^verbatim>\<open>NULL\<close> counter counts as 0.\<close>

definition email_row_inv :: "email_row \<Rightarrow> bool" where
  "email_row_inv r = ((opened_at r \<noteq> None) = (0 < or_zero (open_count r)))"

definition link_row_inv :: "link_row \<Rightarrow> bool" where
  "link_row_inv l = ((0 < or_zero (click_count l)) = (last_clicked l \<noteq> None))"

text \<open>The columns written when a row is created.\<close>

definition email_creation_fields :: "email_row \<Rightarrow> string \<times> string \<times> timestamp" where
  "email_creation_fields r = (recipient_email r, subject r, sent_at r)"

definition link_creation_fields :: "link_row \<Rightarrow> string \<times> string \<times> string \<times> timestamp" where
  "link_creation_fields l = (original_url l, email_id l, link_recipient_email l, created_at l)"

section \<open>Requests in flight at the same time\<close>

text \<open>
  Each request opens its own connection and talks to the store twice: the \<^verbatim>\<open>SELECT\<close>
  with \<^verbatim>\<open>fetchone()\<close>, and later the \<^verbatim>\<open>UPDATE\<close> with \<^verbatim>\<open>commit()\<close>, whose new count
  was computed in Python from the row fetched before. The store runs each of the two as
  one step; between them the request holds \<^verbatim>\<open>result\<close> in a local variable. A request in
  flight is therefore in one of three states.
\<close>

datatype thread = Ready | Fetched "int option option" | Finished

text \<open>
  The second half of \<^verbatim>\<open>track_email\<close>, from \<^verbatim>\<open>if result:\<close> to \<^verbatim>\<open>conn.commit()\<close>, run
  on whatever the database holds by then.
\<close>

definition track_email_write ::
  "request \<Rightarrow> timestamp \<Rightarrow> string \<Rightarrow> int option option \<Rightarrow> database \<Rightarrow> database" where
  "track_email_write req now tracking_id result db =
     (case result of
        Some result0 \<Rightarrow>
          update_email_tracking db now (or_zero result0 + 1)
            (headers_get_user_agent req) (remote_addr req) tracking_id
      | None \<Rightarrow> db)"

fun thread_step ::
  "string \<Rightarrow> request \<times> timestamp \<Rightarrow> thread \<Rightarrow> database \<Rightarrow> thread \<times> database" where
  "thread_step tracking_id (req, now) Ready db =
     (Fetched (select_open_count db tracking_id), db)"
| "thread_step tracking_id (req, now) (Fetched result) db =
     (Finished, track_email_write req now tracking_id result db)"
| "thread_step tracking_id (req, now) Finished db = (Finished, db)"

text \<open>
  A schedule names, step by step, the request that moves next; all requests are open
  events for the same identifier, none meeting a store failure. An index that names no
  request is skipped.
\<close>

fun run_schedule ::
  "nat list \<Rightarrow> string \<Rightarrow> (request \<times> timestamp) list \<Rightarrow> thread list \<times> database
     \<Rightarrow> thread list \<times> database" where
  "run_schedule [] tracking_id rs s = s"
| "run_schedule (i # sched) tracking_id rs (ts, db) =
     (if i < length rs \<and> i < length ts
      then (case thread_step tracking_id (rs ! i) (ts ! i) db of
              (t', db') \<Rightarrow> run_schedule sched tracking_id rs (ts[i := t'], db'))
      else run_schedule sched tracking_id rs (ts, db))"

definition track_email_concurrent ::
  "nat list \<Rightarrow> string \<Rightarrow> (request \<times> timestamp) list \<Rightarrow> database \<Rightarrow> database" where
  "track_email_concurrent sched tracking_id rs db =
     snd (run_schedule sched tracking_id rs (replicate (length rs) Ready, db))"

text \<open>A schedule under which each of \<open>m\<close> requests takes both its steps.\<close>

definition complete_schedule :: "nat \<Rightarrow> nat list \<Rightarrow> bool" where
  "complete_schedule m sched = list_all (\<lambda>i. count_list sched i = 2) [0..<m]"

text \<open>The schedule that runs the requests one after the other.\<close>

definition serial_schedule :: "nat \<Rightarrow> nat list" where
  "serial_schedule m = concat (map (\<lambda>i. [i, i]) [0..<m])"

definition accepted_event :: "request \<times> timestamp \<Rightarrow> event" where
  "accepted_event rq = \<lparr>ev_faults = no_faults, ev_request = fst rq, ev_now = snd rq\<rparr>"

text \<open>
  For the proofs: how far a request has come, and the invariant of a run that starts
  from a row whose count reads \<open>b\<close>. The stored count and every count a request holds lie
  between \<open>b\<close> and \<open>b\<close> plus the number of requests that have written.
\<close>

fun steps_done :: "thread \<Rightarrow> nat" where
  "steps_done Ready = 0"
| "steps_done (Fetched _) = 1"
| "steps_done Finished = 2"

definition conc_inv :: "int \<Rightarrow> string \<Rightarrow> thread list \<Rightarrow> database \<Rightarrow> bool" where
  "conc_inv b tracking_id ts db =
     ((\<exists>r. email_tracking db tracking_id = Some r
          \<and> b \<le> or_zero (open_count r)
          \<and> or_zero (open_count r) \<le> b + int (count_list ts Finished)
          \<and> (0 < count_list ts Finished \<longrightarrow>
               open_count r \<noteq> None \<and> b + 1 \<le> or_zero (open_count r)))
      \<and> (\<forall>res. Fetched res \<in> set ts \<longrightarrow>
            (\<exists>c. res = Some c \<and> b \<le> or_zero c
                 \<and> or_zero c \<le> b + int (count_list ts Finished))))"

text \<open>
  The same for requests of both kinds, to any identifiers, with store failures. A request
  waits, then holds what its \<^verbatim>\<open>SELECT\<close> fetched, then is done; a store failure at either
  step ends it with nothing written, as the \<^verbatim>\<open>except\<close> clauses do.
\<close>

datatype flight =
    Waiting
  | Read_Open "int option option"
  | Read_Click "(string \<times> int option) option"
  | Done

fun serve_step :: "route \<times> event \<Rightarrow> flight \<Rightarrow> database \<Rightarrow> flight \<times> database" where
  "serve_step (Track tracking_id, e) Waiting db =
     (if ev_faults e Connect \<or> ev_faults e Execute_Select then (Done, db)
      else (Read_Open (select_open_count db tracking_id), db))"
| "serve_step (Track tracking_id, e) (Read_Open result) db =
     (case result of
        Some result0 \<Rightarrow>
          if ev_faults e Execute_Update \<or> ev_faults e Commit then (Done, db)
          else (Done, update_email_tracking db (ev_now e) (or_zero result0 + 1)
                        (headers_get_user_agent (ev_request e)) (remote_addr (ev_request e))
                        tracking_id)
      | None \<Rightarrow> (Done, db))"
| "serve_step (Click link_id, e) Waiting db =
     (if ev_faults e Connect \<or> ev_faults e Execute_Select then (Done, db)
      else (Read_Click (select_url_click_count db link_id), db))"
| "serve_step (Click link_id, e) (Read_Click result) db =
     (case result of
        Some (url, cc) \<Rightarrow>
          (case cc of
             None \<Rightarrow> (Done, db)
           | Some n \<Rightarrow>
               if ev_faults e Execute_Update \<or> ev_faults e Commit then (Done, db)
               else (Done, update_link_tracking db (n + 1) (ev_now e)
                             (headers_get_user_agent (ev_request e))
                             (remote_addr (ev_request e)) link_id))
      | None \<Rightarrow> (Done, db))"
| "serve_step rq t db = (Done, db)"

text \<open>A schedule over a list of requests, as above.\<close>

fun run_interleaved ::
  "nat list \<Rightarrow> (route \<times> event) list \<Rightarrow> flight list \<times> database \<Rightarrow> flight list \<times> database" where
  "run_interleaved [] rs s = s"
| "run_interleaved (i # sched) rs (ts, db) =
     (if i < length rs \<and> i < length ts
      then (case serve_step (rs ! i) (ts ! i) db of
              (t', db') \<Rightarrow> run_interleaved sched rs (ts[i := t'], db'))
      else run_interleaved sched rs (ts, db))"

definition serve_interleaved ::
  "nat list \<Rightarrow> (route \<times> event) list \<Rightarrow> database \<Rightarrow> database" where
  "serve_interleaved sched rs db =
     snd (run_interleaved sched rs (replicate (length rs) Waiting, db))"

text \<open>
  For the proofs: the requests that have applied an open event for an identifier, and
  the invariants of a run for one tracking record and for one link record.
\<close>

definition done_opens :: "string \<Rightarrow> (route \<times> event) list \<Rightarrow> flight list \<Rightarrow> nat set" where
  "done_opens tracking_id rs ts =
     {i. i < length ts \<and> ts ! i = Done
         \<and> (case rs ! i of (rt, e) \<Rightarrow> rt = Track tracking_id \<and> store_ok (ev_faults e))}"

definition open_inv :: "string \<Rightarrow> (route \<times> event) list \<Rightarrow> flight list \<Rightarrow> database \<Rightarrow> bool" where
  "open_inv tracking_id rs ts db =
     ((\<exists>r. email_tracking db tracking_id = Some r \<and> email_row_inv r
           \<and> 0 \<le> or_zero (open_count r)
           \<and> or_zero (open_count r) \<le> int (card (done_opens tracking_id rs ts)))
      \<and> (\<forall>i e res. i < length ts \<and> rs ! i = (Track tracking_id, e) \<and> ts ! i = Read_Open res
            \<longrightarrow> \<not> ev_faults e Connect \<and> \<not> ev_faults e Execute_Select
                \<and> (\<exists>c. res = Some c \<and> 0 \<le> or_zero c
                       \<and> or_zero c \<le> int (card (done_opens tracking_id rs ts)))))"

definition click_inv :: "string \<Rightarrow> (route \<times> event) list \<Rightarrow> flight list \<Rightarrow> database \<Rightarrow> bool" where
  "click_inv link_id rs ts db =
     ((\<exists>l. link_tracking db link_id = Some l \<and> link_row_inv l
           \<and> 0 \<le> or_zero (click_count l))
      \<and> (\<forall>i e url n. i < length ts \<and> rs ! i = (Click link_id, e)
              \<and> ts ! i = Read_Click (Some (url, Some n)) \<longrightarrow> 0 \<le> n))"

section \<open>Example data\<close>

text \<open>The records of the specification's end-to-end examples.\<close>

definition example_row :: email_row where
  "example_row = \<lparr>recipient_email = ''a@x.com'', subject = ''Hello'', sent_at = 100,
     opened_at = None, open_count = Some 0, user_agent = None, ip_address = None\<rparr>"

definition example_link :: link_row where
  "example_link = \<lparr>original_url = ''https://example.com/promo'', email_id = ''abc123'',
     link_recipient_email = ''a@x.com'', created_at = 100, click_count = Some 0,
     last_clicked = None, link_user_agent = None, link_ip_address = None\<rparr>"

definition example_db :: database where
  "example_db = \<lparr>email_tracking = [''abc123'' \<mapsto> example_row],
     link_tracking = [''lnk1'' \<mapsto> example_link]\<rparr>"

text \<open>The same rows with their counters \<^verbatim>\<open>NULL\<close>.\<close>

definition example_db_null :: database where
  "example_db_null =
     \<lparr>email_tracking = [''abc123'' \<mapsto> example_row\<lparr>open_count := None\<rparr>],
      link_tracking = [''lnk1'' \<mapsto> example_link\<lparr>click_count := None\<rparr>]\<rparr>"

definition example_request :: request where
  "example_request =
     \<lparr>header_user_agent = Some ''Mozilla/5.0'', remote_addr = Some ''10.0.0.7''\<rparr>"

definition example_event :: "timestamp \<Rightarrow> event" where
  "example_event t = \<lparr>ev_faults = no_faults, ev_request = example_request, ev_now = t\<rparr>"

text \<open>A request whose commit fails.\<close>

definition commit_fails :: faults where
  "commit_fails = (\<lambda>op. op = Commit)"

section \<open>What one request does\<close>

text \<open>
  The handlers case by case: the row is there or not, the store fails or not.
\<close>

lemma store_ok_no_faults: "store_ok no_faults"
  by (simp add: store_ok_def no_faults_def)

lemma track_email_response:
  "fst (track_email fails req now tracking_id db) = Response TRACKING_PIXEL ''image/gif''"
  by (simp add: track_email_def split: prod.split sum.split)

lemma track_email_absent:
  "email_tracking db tracking_id = None \<Longrightarrow>
   track_email fails req now tracking_id db = (Response TRACKING_PIXEL ''image/gif'', db)"
  by (simp add: track_email_def track_email_try_def select_open_count_def Let_def)

lemma track_email_present_ok:
  "email_tracking db tracking_id = Some r \<Longrightarrow> store_ok fails \<Longrightarrow>
   track_email fails req now tracking_id db =
     (Response TRACKING_PIXEL ''image/gif'',
      db\<lparr>email_tracking := (email_tracking db)(tracking_id \<mapsto>
           r\<lparr>opened_at := Some now, open_count := Some (or_zero (open_count r) + 1),
             user_agent := Some (headers_get_user_agent req),
             ip_address := remote_addr req\<rparr>)\<rparr>)"
  by (simp add: track_email_def track_email_try_def select_open_count_def Let_def
      store_ok_def update_email_tracking_def)

lemma track_email_present_failed:
  "email_tracking db tracking_id = Some r \<Longrightarrow> \<not> store_ok fails \<Longrightarrow>
   track_email fails req now tracking_id db = (Response TRACKING_PIXEL ''image/gif'', db)"
  by (auto simp add: track_email_def track_email_try_def select_open_count_def Let_def
      store_ok_def)

lemma track_email_other_row:
  "k \<noteq> tracking_id \<Longrightarrow>
   email_tracking (snd (track_email fails req now tracking_id db)) k = email_tracking db k"
  by (auto simp add: track_email_def track_email_try_def select_open_count_def Let_def
      update_email_tracking_def split: option.splits)

lemma track_email_link_table:
  "link_tracking (snd (track_email fails req now tracking_id db)) = link_tracking db"
  by (auto simp add: track_email_def track_email_try_def select_open_count_def Let_def
      update_email_tracking_def split: option.splits)

lemma track_link_click_present_ok:
  "link_tracking db link_id = Some l \<Longrightarrow> click_count l = Some n \<Longrightarrow> store_ok fails \<Longrightarrow>
   track_link_click fails req now link_id db =
     ((case redirect (original_url l) of
         Inr resp \<Rightarrow> resp
       | Inl e \<Rightarrow> Body_Status ''Error processing link'' 500),
      db\<lparr>link_tracking := (link_tracking db)(link_id \<mapsto>
           l\<lparr>click_count := Some (n + 1), last_clicked := Some now,
             link_user_agent := Some (headers_get_user_agent req),
             link_ip_address := remote_addr req\<rparr>)\<rparr>)"
  by (simp add: track_link_click_def track_link_click_try_def redirect_def
      select_url_click_count_def
      Let_def store_ok_def update_link_tracking_def)

lemma track_link_click_null_count:
  "link_tracking db link_id = Some l \<Longrightarrow> click_count l = None \<Longrightarrow>
   track_link_click fails req now link_id db = (Body_Status ''Error processing link'' 500, db)"
  by (simp add: track_link_click_def track_link_click_try_def redirect_def
      select_url_click_count_def
      Let_def)

lemma track_link_click_absent:
  "link_tracking db link_id = None \<Longrightarrow>
   snd (track_link_click fails req now link_id db) = db"
  by (simp add: track_link_click_def track_link_click_try_def redirect_def
      select_url_click_count_def
      Let_def)

lemma track_link_click_failed:
  "\<not> store_ok fails \<Longrightarrow> snd (track_link_click fails req now link_id db) = db"
  by (auto simp add: track_link_click_def track_link_click_try_def redirect_def
      select_url_click_count_def
      Let_def store_ok_def split: option.splits)

lemma track_link_click_other_row:
  "k \<noteq> link_id \<Longrightarrow>
   link_tracking (snd (track_link_click fails req now link_id db)) k = link_tracking db k"
  by (auto simp add: track_link_click_def track_link_click_try_def redirect_def
      select_url_click_count_def
      Let_def update_link_tracking_def split: option.splits)

lemma track_link_click_email_table:
  "email_tracking (snd (track_link_click fails req now link_id db)) = email_tracking db"
  by (auto simp add: track_link_click_def track_link_click_try_def redirect_def
      select_url_click_count_def
      Let_def update_link_tracking_def split: option.splits)

lemma track_link_click_try_store_failure_iff:
  "(\<exists>op. fst (track_link_click_try fails req now link_id db) = Inl (OperationalError op)) \<longleftrightarrow>
   (fails Connect \<or> fails Execute_Select \<or>
    ((fails Execute_Update \<or> fails Commit) \<and>
     (\<exists>l n. link_tracking db link_id = Some l \<and> click_count l = Some n)))"
  by (auto simp add: track_link_click_try_def redirect_def
      select_url_click_count_def Let_def
      split: option.splits if_splits prod.splits)

section \<open>Requests one after the other\<close>

lemma track_email_seq_ok:
  assumes "list_all (\<lambda>e. store_ok (ev_faults e)) es"
    and "email_tracking db tracking_id = Some r"
    and "es \<noteq> []"
  shows "\<exists>r'. email_tracking (snd (track_email_seq es tracking_id db)) tracking_id = Some r'
           \<and> open_count r' = Some (or_zero (open_count r) + int (length es))
           \<and> opened_at r' = Some (ev_now (last es))
           \<and> recipient_email r' = recipient_email r \<and> subject r' = subject r
           \<and> sent_at r' = sent_at r"
  using assms
proof (induction es arbitrary: db r)
  case Nil
  then show ?case by simp
next
  case (Cons e es)
  let ?r1 = "r\<lparr>opened_at := Some (ev_now e), open_count := Some (or_zero (open_count r) + 1),
             user_agent := Some (headers_get_user_agent (ev_request e)),
             ip_address := remote_addr (ev_request e)\<rparr>"
  let ?db1 = "db\<lparr>email_tracking := (email_tracking db)(tracking_id \<mapsto> ?r1)\<rparr>"
  from Cons.prems have ok: "store_ok (ev_faults e)" and oks: "list_all (\<lambda>e. store_ok (ev_faults e)) es"
    by simp_all
  have step: "track_email (ev_faults e) (ev_request e) (ev_now e) tracking_id db
                = (Response TRACKING_PIXEL ''image/gif'', ?db1)"
    using track_email_present_ok [OF Cons.prems(2) ok] .
  have row1: "email_tracking ?db1 tracking_id = Some ?r1" by simp
  show ?case
  proof (cases "es = []")
    case True
    then show ?thesis using step by simp
  next
    case False
    from Cons.IH [OF oks row1 False] obtain r' where
      r': "email_tracking (snd (track_email_seq es tracking_id ?db1)) tracking_id = Some r'"
        "open_count r' = Some (or_zero (open_count ?r1) + int (length es))"
        "opened_at r' = Some (ev_now (last es))"
        "recipient_email r' = recipient_email ?r1" "subject r' = subject ?r1"
        "sent_at r' = sent_at ?r1"
      by blast
    then show ?thesis using step False
      by (simp add: split_beta)
  qed
qed

lemma serve_email_row:
  assumes "email_tracking db tracking_id = Some r"
    and "email_row_inv r" and "0 \<le> or_zero (open_count r)"
  shows "\<exists>r1. email_tracking (snd (serve rt e db)) tracking_id = Some r1
            \<and> or_zero (open_count r1) = or_zero (open_count r)
                 + (if rt = Track tracking_id \<and> store_ok (ev_faults e) then 1 else 0)
            \<and> email_row_inv r1"
proof (cases rt)
  case (Track t)
  show ?thesis
  proof (cases "t = tracking_id")
    case True
    show ?thesis
    proof (cases "store_ok (ev_faults e)")
      case ok: True
      from track_email_present_ok [OF assms(1) ok, of "ev_request e" "ev_now e"]
      show ?thesis using Track True ok assms(3) by (simp add: email_row_inv_def)
    next
      case bad: False
      from track_email_present_failed [OF assms(1) bad, of "ev_request e" "ev_now e"]
      show ?thesis using Track True bad assms by simp
    qed
  next
    case False
    then have "email_tracking (snd (serve rt e db)) tracking_id = Some r"
      using Track assms(1) by (simp add: track_email_other_row)
    then show ?thesis using Track False assms(2) by simp
  qed
next
  case (Click l)
  then show ?thesis using assms by (simp add: track_link_click_email_table)
qed

lemma serve_all_email_row:
  assumes "email_tracking db tracking_id = Some r"
    and "email_row_inv r" and "0 \<le> or_zero (open_count r)"
  shows "\<exists>r'. email_tracking (serve_all evs db) tracking_id = Some r'
            \<and> or_zero (open_count r') = or_zero (open_count r)
                 + int (applied_opens tracking_id evs)
            \<and> email_row_inv r'"
  using assms
proof (induction evs arbitrary: db r)
  case Nil
  then show ?case by (simp add: applied_opens_def)
next
  case (Cons ev evs)
  obtain rt e where ev: "ev = (rt, e)" by (cases ev)
  from serve_email_row [OF Cons.prems, of rt e] obtain r1 where
    r1: "email_tracking (snd (serve rt e db)) tracking_id = Some r1"
      "or_zero (open_count r1) = or_zero (open_count r)
         + (if rt = Track tracking_id \<and> store_ok (ev_faults e) then 1 else 0)"
      "email_row_inv r1" by blast
  have nonneg: "0 \<le> or_zero (open_count r1)" using r1(2) Cons.prems(3) by simp
  from Cons.IH [OF r1(1) r1(3) nonneg] obtain r' where
    "email_tracking (serve_all evs (snd (serve rt e db))) tracking_id = Some r'"
    "or_zero (open_count r') = or_zero (open_count r1) + int (applied_opens tracking_id evs)"
    "email_row_inv r'" by blast
  then show ?case using ev r1(2) by (auto simp add: applied_opens_def)
qed

lemma serve_link_row:
  assumes "link_tracking db link_id = Some l"
    and "link_row_inv l" and "0 \<le> or_zero (click_count l)"
  shows "\<exists>l1. link_tracking (snd (serve rt e db)) link_id = Some l1
            \<and> link_row_inv l1 \<and> 0 \<le> or_zero (click_count l1)"
proof (cases rt)
  case (Track t)
  then show ?thesis using assms by (simp add: track_email_link_table)
next
  case (Click k)
  show ?thesis
  proof (cases "k = link_id")
    case False
    then have "link_tracking (snd (serve rt e db)) link_id = Some l"
      using Click assms(1) by (simp add: track_link_click_other_row)
    then show ?thesis using assms by simp
  next
    case True
    show ?thesis
    proof (cases "click_count l")
      case None
      from track_link_click_null_count [OF assms(1) None, of "ev_faults e" "ev_request e" "ev_now e"]
      show ?thesis using Click True assms by simp
    next
      case (Some n)
      show ?thesis
      proof (cases "store_ok (ev_faults e)")
        case ok: True
        from track_link_click_present_ok [OF assms(1) Some ok, of "ev_request e" "ev_now e"]
        show ?thesis using Click True assms(3) Some by (simp add: link_row_inv_def)
      next
        case bad: False
        from track_link_click_failed [OF bad, of "ev_request e" "ev_now e" link_id db]
        show ?thesis using Click True assms by simp
      qed
    qed
  qed
qed

lemma serve_all_link_row:
  assumes "link_tracking db link_id = Some l"
    and "link_row_inv l" and "0 \<le> or_zero (click_count l)"
  shows "\<exists>l'. link_tracking (serve_all evs db) link_id = Some l' \<and> link_row_inv l'"
  using assms
proof (induction evs arbitrary: db l)
  case Nil
  then show ?case by simp
next
  case (Cons ev evs)
  obtain rt e where ev: "ev = (rt, e)" by (cases ev)
  from serve_link_row [OF Cons.prems, of rt e] obtain l1 where
    l1: "link_tracking (snd (serve rt e db)) link_id = Some l1"
      "link_row_inv l1" "0 \<le> or_zero (click_count l1)" by blast
  from Cons.IH [OF l1] show ?case using ev by simp
qed

lemma fresh_email_row_inv:
  "fresh_email_row r \<Longrightarrow> email_row_inv r \<and> or_zero (open_count r) = 0"
  by (auto simp add: fresh_email_row_def email_row_inv_def)

lemma fresh_link_row_inv:
  "fresh_link_row l \<Longrightarrow> link_row_inv l \<and> or_zero (click_count l) = 0"
  by (auto simp add: fresh_link_row_def link_row_inv_def)

section \<open>Interleaved requests\<close>

text \<open>
  Every step of a run keeps the invariant, and a complete schedule finishes every
  request; together they bound the count a run ends with.
\<close>

lemma count_list_update:
  "i < length xs \<Longrightarrow>
   count_list (xs[i := y]) a + (if xs ! i = a then 1 else 0)
     = count_list xs a + (if y = a then 1 else 0)"
proof (induction xs arbitrary: i)
  case Nil
  then show ?case by simp
next
  case (Cons x xs)
  show ?case
  proof (cases i)
    case 0
    then show ?thesis by simp
  next
    case (Suc j)
    with Cons.prems have "j < length xs" by simp
    from Cons.IH [OF this] show ?thesis using Suc
      by (auto split: if_splits)
  qed
qed

lemma set_update_cases:
  "x \<in> set (xs[i := y]) \<Longrightarrow> x = y \<or> x \<in> set xs"
  using set_update_subset_insert by fastforce

lemma conc_inv_step:
  assumes inv: "conc_inv b tracking_id ts db"
    and i: "i < length ts"
    and step: "thread_step tracking_id rq (ts ! i) db = (t', db')"
  shows "conc_inv b tracking_id (ts[i := t']) db'"
proof -
  obtain req now where rq: "rq = (req, now)" by (cases rq)
  from inv obtain r where
    row: "email_tracking db tracking_id = Some r"
    and lo: "b \<le> or_zero (open_count r)"
    and hi: "or_zero (open_count r) \<le> b + int (count_list ts Finished)"
    and pos: "0 < count_list ts Finished \<longrightarrow>
               open_count r \<noteq> None \<and> b + 1 \<le> or_zero (open_count r)"
    unfolding conc_inv_def by auto
  from inv have fetched: "\<exists>c. res = Some c \<and> b \<le> or_zero c
                 \<and> or_zero c \<le> b + int (count_list ts Finished)"
    if "Fetched res \<in> set ts" for res
    unfolding conc_inv_def using that by blast
  show ?thesis
  proof (cases "ts ! i")
    case Ready
    with step rq have t': "t' = Fetched (Some (open_count r))" and db': "db' = db"
      using row by (simp_all add: select_open_count_def)
    have cnt: "count_list (ts[i := t']) Finished = count_list ts Finished"
      using count_list_update [OF i, of t' Finished] Ready t' by simp
    have "\<exists>c. res = Some c \<and> b \<le> or_zero c \<and> or_zero c \<le> b + int (count_list ts Finished)"
      if "Fetched res \<in> set (ts[i := t'])" for res
      using set_update_cases [OF that] t' fetched lo hi by auto
    then show ?thesis
      unfolding conc_inv_def cnt db' using row lo hi pos by auto
  next
    case (Fetched res)
    have "Fetched res \<in> set ts" using Fetched i nth_mem by metis
    from fetched [OF this] obtain c where
      res: "res = Some c" and clo: "b \<le> or_zero c"
      and chi: "or_zero c \<le> b + int (count_list ts Finished)" by blast
    let ?r' = "r\<lparr>opened_at := Some now, open_count := Some (or_zero c + 1),
                 user_agent := Some (headers_get_user_agent req),
                 ip_address := remote_addr req\<rparr>"
    from step rq Fetched res row have t': "t' = Finished"
      and db': "db' = db\<lparr>email_tracking := (email_tracking db)(tracking_id \<mapsto> ?r')\<rparr>"
      by (simp_all add: track_email_write_def update_email_tracking_def)
    have cnt: "count_list (ts[i := t']) Finished = Suc (count_list ts Finished)"
      using count_list_update [OF i, of t' Finished] Fetched t' by simp
    have row': "email_tracking db' tracking_id = Some ?r'" by (simp add: db')
    have cnt': "or_zero (open_count ?r') = or_zero c + 1" by simp
    have f': "\<exists>c. res' = Some c \<and> b \<le> or_zero c
                 \<and> or_zero c \<le> b + int (count_list (ts[i := t']) Finished)"
      if "Fetched res' \<in> set (ts[i := t'])" for res'
    proof -
      from set_update_cases [OF that] t' have "Fetched res' \<in> set ts" by auto
      from fetched [OF this] show ?thesis unfolding cnt by auto
    qed
    have "b \<le> or_zero (open_count ?r')" using clo by simp
    moreover have "or_zero (open_count ?r') \<le> b + int (count_list (ts[i := t']) Finished)"
      unfolding cnt using chi by simp
    moreover have "open_count ?r' \<noteq> None \<and> b + 1 \<le> or_zero (open_count ?r')"
      using clo by simp
    ultimately show ?thesis
      unfolding conc_inv_def using row' f' by auto
  next
    case Finished
    with step rq have "t' = Finished" "db' = db" by simp_all
    then have "ts[i := t'] = ts" using Finished by (metis list_update_id)
    then show ?thesis using inv \<open>db' = db\<close> by simp
  qed
qed

lemma conc_inv_run:
  assumes "run_schedule sched tracking_id rs (ts, db) = (ts', db')"
    and "conc_inv b tracking_id ts db"
  shows "conc_inv b tracking_id ts' db'"
  using assms
proof (induction sched arbitrary: ts db)
  case Nil
  then show ?case by simp
next
  case (Cons i sched)
  show ?case
  proof (cases "i < length rs \<and> i < length ts")
    case True
    obtain t1 db1 where st: "thread_step tracking_id (rs ! i) (ts ! i) db = (t1, db1)"
      by (cases "thread_step tracking_id (rs ! i) (ts ! i) db")
    from Cons.prems(1) True st
    have run: "run_schedule sched tracking_id rs (ts[i := t1], db1) = (ts', db')" by simp
    from conc_inv_step [OF Cons.prems(2) _ st] True
    have "conc_inv b tracking_id (ts[i := t1]) db1" by simp
    from Cons.IH [OF run this] show ?thesis .
  next
    case False
    with Cons.prems(1) have "run_schedule sched tracking_id rs (ts, db) = (ts', db')"
      by auto
    from Cons.IH [OF this Cons.prems(2)] show ?thesis .
  qed
qed

lemma steps_done_step:
  "thread_step tracking_id rq t db = (t', db') \<Longrightarrow> steps_done t' = min 2 (Suc (steps_done t))"
  by (cases rq; cases t) auto

lemma steps_done_le: "min 2 (steps_done t) = steps_done t"
  by (cases t) simp_all

lemma run_schedule_progress:
  assumes "run_schedule sched tracking_id rs (ts, db) = (ts', db')"
    and "length ts = length rs"
  shows "length ts' = length ts
         \<and> (\<forall>i < length ts. steps_done (ts' ! i) = min 2 (steps_done (ts ! i) + count_list sched i))"
  using assms
proof (induction sched arbitrary: ts db)
  case Nil
  then show ?case by (auto simp: steps_done_le)
next
  case (Cons j sched)
  show ?case
  proof (cases "j < length rs \<and> j < length ts")
    case True
    obtain t1 db1 where st: "thread_step tracking_id (rs ! j) (ts ! j) db = (t1, db1)"
      by (cases "thread_step tracking_id (rs ! j) (ts ! j) db")
    from Cons.prems(1) True st
    have run: "run_schedule sched tracking_id rs (ts[j := t1], db1) = (ts', db')" by simp
    have len: "length (ts[j := t1]) = length rs" using Cons.prems(2) by simp
    from Cons.IH [OF run len]
    have ih: "length ts' = length ts"
      "\<And>i. i < length ts \<Longrightarrow>
         steps_done (ts' ! i) = min 2 (steps_done (ts[j := t1] ! i) + count_list sched i)"
      by simp_all
    have "steps_done (ts' ! i) = min 2 (steps_done (ts ! i) + count_list (j # sched) i)"
      if "i < length ts" for i
    proof (cases "i = j")
      case True
      then show ?thesis using ih(2) [OF that] that steps_done_step [OF st] by simp
    next
      case False
      then show ?thesis using ih(2) [OF that] by simp
    qed
    then show ?thesis using ih(1) by blast
  next
    case False
    with Cons.prems(1) have run: "run_schedule sched tracking_id rs (ts, db) = (ts', db')"
      by auto
    from Cons.IH [OF run Cons.prems(2)] False Cons.prems(2) show ?thesis by auto
  qed
qed

lemma steps_done_2: "steps_done t = 2 \<Longrightarrow> t = Finished"
  by (cases t) simp_all

lemma complete_schedule_all_finished:
  assumes "run_schedule sched tracking_id rs (replicate (length rs) Ready, db) = (ts', db')"
    and "complete_schedule (length rs) sched"
  shows "ts' = replicate (length rs) Finished"
proof -
  from run_schedule_progress [OF assms(1)]
  have len: "length ts' = length rs"
    and prog: "\<And>i. i < length rs \<Longrightarrow> steps_done (ts' ! i) = min 2 (count_list sched i)"
    by simp_all
  have "ts' ! i = Finished" if "i < length rs" for i
  proof -
    from assms(2) that have "count_list sched i = 2"
      by (simp add: complete_schedule_def list_all_iff)
    with prog [OF that] show ?thesis by (simp add: steps_done_2)
  qed
  then show ?thesis using len by (simp add: list_eq_iff_nth_eq)
qed

lemma count_list_replicate_same: "count_list (replicate n x) x = n"
  by (induction n) simp_all

lemma track_email_concurrent_bounds:
  assumes row: "email_tracking db tracking_id = Some r"
    and ne: "rs \<noteq> []"
    and compl: "complete_schedule (length rs) sched"
  shows "\<exists>r' k. email_tracking (track_email_concurrent sched tracking_id rs db) tracking_id = Some r'
           \<and> open_count r' = Some k
           \<and> or_zero (open_count r) + 1 \<le> k
           \<and> k \<le> or_zero (open_count r) + int (length rs)"
proof -
  obtain ts' db' where run:
    "run_schedule sched tracking_id rs (replicate (length rs) Ready, db) = (ts', db')"
    by (cases "run_schedule sched tracking_id rs (replicate (length rs) Ready, db)")
  have init: "conc_inv (or_zero (open_count r)) tracking_id (replicate (length rs) Ready) db"
    unfolding conc_inv_def using row by (auto simp: count_list_0_iff)
  from conc_inv_run [OF run init]
  have inv: "conc_inv (or_zero (open_count r)) tracking_id ts' db'" .
  from complete_schedule_all_finished [OF run compl]
  have cnt: "count_list ts' Finished = length rs"
    by (simp add: count_list_replicate_same)
  from ne have pos: "0 < length rs" by simp
  from inv obtain r' where r': "email_tracking db' tracking_id = Some r'"
    "or_zero (open_count r') \<le> or_zero (open_count r) + int (length rs)"
    "open_count r' \<noteq> None" "or_zero (open_count r) + 1 \<le> or_zero (open_count r')"
    unfolding conc_inv_def cnt using pos by blast
  from r'(3) obtain k where k: "open_count r' = Some k" by auto
  then have "or_zero (open_count r') = k" by simp
  with r' k show ?thesis
    unfolding track_email_concurrent_def run by auto
qed

text \<open>
  The serial schedule is the sequential server: each request reads and writes with
  nothing in between, which is one call of the handler.
\<close>

lemma run_schedule_twice:
  assumes "i < length rs" "i < length ts" "ts ! i = Ready" "rs ! i = (req, now)"
  shows "run_schedule (i # i # sched) tracking_id rs (ts, db) =
         run_schedule sched tracking_id rs
           (ts[i := Finished],
            track_email_write req now tracking_id (select_open_count db tracking_id) db)"
  using assms by simp

lemma track_email_write_row:
  assumes "email_tracking db tracking_id = Some r"
  shows "\<exists>r'. email_tracking (track_email_write req now tracking_id
                  (select_open_count db tracking_id) db) tracking_id = Some r'
            \<and> open_count r' = Some (or_zero (open_count r) + 1)"
  using assms
  by (simp add: track_email_write_def select_open_count_def update_email_tracking_def)

lemma track_email_no_faults_write:
  "snd (track_email no_faults req now tracking_id db) =
     track_email_write req now tracking_id (select_open_count db tracking_id) db"
  by (simp add: track_email_def track_email_try_def track_email_write_def no_faults_def
      Let_def split: option.split)

lemma serial_from:
  assumes "length ts = length rs"
    and "\<forall>i. j \<le> i \<and> i < length rs \<longrightarrow> ts ! i = Ready"
    and "email_tracking db tracking_id = Some r"
    and "j \<le> length rs"
    and "k = length rs - j"
  shows "\<exists>r'. email_tracking (snd (run_schedule (concat (map (\<lambda>i. [i, i]) [j..<length rs]))
                  tracking_id rs (ts, db))) tracking_id = Some r'
            \<and> or_zero (open_count r') = or_zero (open_count r) + int k"
  using assms
proof (induction k arbitrary: j ts db r)
  case 0
  then have "j = length rs" by simp
  then show ?case using "0.prems"(3) by simp
next
  case (Suc k)
  then have jlt: "j < length rs" by simp
  obtain req now where rq: "rs ! j = (req, now)" by (cases "rs ! j")
  let ?db1 = "track_email_write req now tracking_id (select_open_count db tracking_id) db"
  let ?ts1 = "ts[j := Finished]"
  from track_email_write_row [OF Suc.prems(3)] obtain r1 where
    r1: "email_tracking ?db1 tracking_id = Some r1"
      "open_count r1 = Some (or_zero (open_count r) + 1)" by blast
  have ready: "ts ! j = Ready" using Suc.prems(2) jlt by simp
  have upt: "[j..<length rs] = j # [Suc j..<length rs]" using jlt by (simp add: upt_conv_Cons)
  have run: "run_schedule (concat (map (\<lambda>i. [i, i]) [j..<length rs])) tracking_id rs (ts, db)
             = run_schedule (concat (map (\<lambda>i. [i, i]) [Suc j..<length rs])) tracking_id rs
                 (?ts1, ?db1)"
    unfolding upt using run_schedule_twice [OF jlt _ ready rq] jlt Suc.prems(1) by simp
  have len1: "length ?ts1 = length rs" using Suc.prems(1) by simp
  have rdy1: "\<forall>i. Suc j \<le> i \<and> i < length rs \<longrightarrow> ?ts1 ! i = Ready"
    using Suc.prems(2) by simp
  have k: "k = length rs - Suc j" using Suc.prems(5) by simp
  from Suc.IH [OF len1 rdy1 r1(1) _ k] jlt obtain r' where
    "email_tracking (snd (run_schedule (concat (map (\<lambda>i. [i, i]) [Suc j..<length rs]))
                  tracking_id rs (?ts1, ?db1))) tracking_id = Some r'"
    "or_zero (open_count r') = or_zero (open_count r1) + int k" by auto
  then show ?case unfolding run using r1(2) by simp
qed

lemma serial_schedule_count:
  assumes "email_tracking db tracking_id = Some r"
  shows "\<exists>r'. email_tracking (track_email_concurrent (serial_schedule (length rs))
                  tracking_id rs db) tracking_id = Some r'
            \<and> or_zero (open_count r') = or_zero (open_count r) + int (length rs)"
  unfolding track_email_concurrent_def serial_schedule_def
  using serial_from [where j = 0 and ts = "replicate (length rs) Ready", OF _ _ assms]
  by simp

lemma accepted_event_sel:
  "ev_faults (accepted_event rq) = no_faults"
  "ev_request (accepted_event (req, now)) = req"
  "ev_now (accepted_event (req, now)) = now"
  by (simp_all add: accepted_event_def)

lemma count_list_serial:
  "count_list (concat (map (\<lambda>i. [i, i]) [0..<m])) i = (if i < m then 2 else 0)"
  by (induction m) auto

lemma complete_serial_schedule: "complete_schedule m (serial_schedule m)"
  by (simp add: complete_schedule_def serial_schedule_def list_all_iff count_list_serial)

lemma serial_from_seq:
  assumes "length ts = length rs"
    and "\<forall>i. j \<le> i \<and> i < length rs \<longrightarrow> ts ! i = Ready"
    and "j \<le> length rs"
    and "k = length rs - j"
  shows "snd (run_schedule (concat (map (\<lambda>i. [i, i]) [j..<length rs])) tracking_id rs (ts, db))
         = snd (track_email_seq (map accepted_event (drop j rs)) tracking_id db)"
  using assms
proof (induction k arbitrary: j ts db)
  case 0
  then show ?case by simp
next
  case (Suc k)
  then have jlt: "j < length rs" by simp
  obtain req now where rq: "rs ! j = (req, now)" by (cases "rs ! j")
  let ?db1 = "track_email_write req now tracking_id (select_open_count db tracking_id) db"
  let ?ts1 = "ts[j := Finished]"
  have ready: "ts ! j = Ready" using Suc.prems(2) jlt by simp
  have upt: "[j..<length rs] = j # [Suc j..<length rs]" using jlt by (simp add: upt_conv_Cons)
  have run: "run_schedule (concat (map (\<lambda>i. [i, i]) [j..<length rs])) tracking_id rs (ts, db)
             = run_schedule (concat (map (\<lambda>i. [i, i]) [Suc j..<length rs])) tracking_id rs
                 (?ts1, ?db1)"
    unfolding upt using run_schedule_twice [OF jlt _ ready rq] jlt Suc.prems(1) by simp
  have len1: "length ?ts1 = length rs" using Suc.prems(1) by simp
  have rdy1: "\<forall>i. Suc j \<le> i \<and> i < length rs \<longrightarrow> ?ts1 ! i = Ready"
    using Suc.prems(2) by simp
  have k: "k = length rs - Suc j" using Suc.prems(4) by simp
  have ih: "snd (run_schedule (concat (map (\<lambda>i. [i, i]) [Suc j..<length rs])) tracking_id rs
                 (?ts1, ?db1))
            = snd (track_email_seq (map accepted_event (drop (Suc j) rs)) tracking_id ?db1)"
    using Suc.IH [OF len1 rdy1 _ k] jlt by simp
  have drop: "drop j rs = (req, now) # drop (Suc j) rs"
    using Cons_nth_drop_Suc [OF jlt] rq by simp
  have one: "track_email no_faults req now tracking_id db
             = (Response TRACKING_PIXEL ''image/gif'', ?db1)"
    using track_email_no_faults_write [of req now tracking_id db]
      track_email_response [of no_faults req now tracking_id db]
    by (metis prod.collapse)
  show ?case unfolding run ih drop
    by (simp add: accepted_event_sel one split_beta)
qed

lemma serial_schedule_is_sequential:
  "track_email_concurrent (serial_schedule (length rs)) tracking_id rs db
   = snd (track_email_seq (map accepted_event rs) tracking_id db)"
  unfolding track_email_concurrent_def serial_schedule_def
  using serial_from_seq [where j = 0 and ts = "replicate (length rs) Ready"]
  by simp

section \<open>Interleaved requests of both kinds\<close>

text \<open>
  One call of a handler is the two steps of a request with nothing in between; every
  step of a run keeps the invariants of both record types.
\<close>

lemma serve_two_steps:
  "snd (serve rt e db) =
     snd (case serve_step (rt, e) Waiting db of (t, db1) \<Rightarrow> serve_step (rt, e) t db1)"
proof (cases rt)
  case (Track t)
  then show ?thesis
    by (auto simp add: track_email_def track_email_try_def Let_def split: option.splits)
next
  case (Click k)
  then show ?thesis
    by (auto simp add: track_link_click_def track_link_click_try_def Let_def
        split: option.splits sum.splits)
qed

lemma serve_step_done: "serve_step rq Done db = (Done, db)"
  by (cases rq; cases "fst rq") auto

lemma finite_done_opens: "finite (done_opens tracking_id rs ts)"
  by (simp add: done_opens_def)

lemma done_opens_mono:
  assumes "ts ! j = Done \<longrightarrow> t' = Done"
  shows "done_opens tracking_id rs ts \<subseteq> done_opens tracking_id rs (ts[j := t'])"
proof -
  have "(ts[j := t']) ! i = Done" if "i < length ts" and "ts ! i = Done" for i
  proof (cases "i = j")
    case True
    then show ?thesis using that assms by simp
  next
    case False
    then show ?thesis using that by simp
  qed
  then show ?thesis by (auto simp add: done_opens_def)
qed

lemma card_done_opens_mono:
  assumes "ts ! j = Done \<longrightarrow> t' = Done"
  shows "card (done_opens tracking_id rs ts) \<le> card (done_opens tracking_id rs (ts[j := t']))"
  by (rule card_mono [OF finite_done_opens done_opens_mono [OF assms]])

lemma card_done_opens_write:
  assumes "j < length ts" and "ts ! j \<noteq> Done"
    and "rs ! j = (Track tracking_id, e)" and "store_ok (ev_faults e)"
  shows "card (done_opens tracking_id rs (ts[j := Done]))
           = Suc (card (done_opens tracking_id rs ts))"
proof -
  have "done_opens tracking_id rs (ts[j := Done]) = insert j (done_opens tracking_id rs ts)"
    using assms by (auto simp add: done_opens_def nth_list_update)
  moreover have "j \<notin> done_opens tracking_id rs ts"
    using assms(2) by (simp add: done_opens_def)
  ultimately show ?thesis by (simp add: finite_done_opens)
qed

lemma card_done_opens_le:
  assumes "length ts = length rs"
  shows "card (done_opens tracking_id rs ts) \<le> applied_opens tracking_id rs"
proof -
  have "done_opens tracking_id rs ts
          \<subseteq> {i. i < length rs
                 \<and> (\<lambda>(rt, e). rt = Track tracking_id \<and> store_ok (ev_faults e)) (rs ! i)}"
    using assms by (auto simp add: done_opens_def)
  then have "card (done_opens tracking_id rs ts)
          \<le> card {i. i < length rs
                 \<and> (\<lambda>(rt, e). rt = Track tracking_id \<and> store_ok (ev_faults e)) (rs ! i)}"
    by (intro card_mono) simp_all
  then show ?thesis
    by (simp add: applied_opens_def length_filter_conv_card)
qed

lemma serve_step_cases:
  assumes "serve_step (rt, e) t db = (t', db')"
  obtains
    (read_open) tid where "rt = Track tid" and "t = Waiting"
      and "\<not> ev_faults e Connect" and "\<not> ev_faults e Execute_Select"
      and "t' = Read_Open (select_open_count db tid)" and "db' = db"
  | (write_open) tid c where "rt = Track tid" and "t = Read_Open (Some c)"
      and "\<not> ev_faults e Execute_Update" and "\<not> ev_faults e Commit"
      and "t' = Done"
      and "db' = update_email_tracking db (ev_now e) (or_zero c + 1)
                   (headers_get_user_agent (ev_request e)) (remote_addr (ev_request e)) tid"
  | (read_click) lid where "rt = Click lid" and "t = Waiting"
      and "\<not> ev_faults e Connect" and "\<not> ev_faults e Execute_Select"
      and "t' = Read_Click (select_url_click_count db lid)" and "db' = db"
  | (write_click) lid url n where "rt = Click lid" and "t = Read_Click (Some (url, Some n))"
      and "\<not> ev_faults e Execute_Update" and "\<not> ev_faults e Commit"
      and "t' = Done"
      and "db' = update_link_tracking db (n + 1) (ev_now e)
                   (headers_get_user_agent (ev_request e)) (remote_addr (ev_request e)) lid"
  | (idle) "t' = Done" and "db' = db"
proof (cases rt)
  case (Track tid)
  show thesis
  proof (cases t)
    case Waiting
    show thesis
    proof (cases "ev_faults e Connect \<or> ev_faults e Execute_Select")
      case True
      with assms Track Waiting have "t' = Done" "db' = db" by auto
      then show thesis by (rule idle)
    next
      case False
      with assms Track Waiting
      have "t' = Read_Open (select_open_count db tid)" "db' = db" by auto
      with Track Waiting False show thesis using read_open by blast
    qed
  next
    case (Read_Open result)
    show thesis
    proof (cases result)
      case None
      with assms Track Read_Open have "t' = Done" "db' = db" by auto
      then show thesis by (rule idle)
    next
      case (Some c)
      show thesis
      proof (cases "ev_faults e Execute_Update \<or> ev_faults e Commit")
        case True
        with assms Track Read_Open Some have "t' = Done" "db' = db" by auto
        then show thesis by (rule idle)
      next
        case False
        with assms Track Read_Open Some
        have "t' = Done"
          "db' = update_email_tracking db (ev_now e) (or_zero c + 1)
                   (headers_get_user_agent (ev_request e)) (remote_addr (ev_request e)) tid"
          by auto
        with Track Read_Open Some False show thesis using write_open by blast
      qed
    qed
  next
    case (Read_Click result)
    with assms Track have "t' = Done" "db' = db" by auto
    then show thesis by (rule idle)
  next
    case Done
    with assms Track have "t' = Done" "db' = db" by auto
    then show thesis by (rule idle)
  qed
next
  case (Click lid)
  show thesis
  proof (cases t)
    case Waiting
    show thesis
    proof (cases "ev_faults e Connect \<or> ev_faults e Execute_Select")
      case True
      with assms Click Waiting have "t' = Done" "db' = db" by auto
      then show thesis by (rule idle)
    next
      case False
      with assms Click Waiting
      have "t' = Read_Click (select_url_click_count db lid)" "db' = db" by auto
      with Click Waiting False show thesis using read_click by blast
    qed
  next
    case (Read_Open result)
    with assms Click have "t' = Done" "db' = db" by auto
    then show thesis by (rule idle)
  next
    case (Read_Click result)
    show thesis
    proof (cases result)
      case None
      with assms Click Read_Click have "t' = Done" "db' = db" by auto
      then show thesis by (rule idle)
    next
      case (Some p)
      obtain url cc where p: "p = (url, cc)" by (cases p)
      show thesis
      proof (cases cc)
        case None
        with assms Click Read_Click Some p have "t' = Done" "db' = db" by auto
        then show thesis by (rule idle)
      next
        case (Some n)
        show thesis
        proof (cases "ev_faults e Execute_Update \<or> ev_faults e Commit")
          case True
          with assms Click Read_Click \<open>result = Some p\<close> p Some
          have "t' = Done" "db' = db" by auto
          then show thesis by (rule idle)
        next
          case False
          with assms Click Read_Click \<open>result = Some p\<close> p Some
          have "t' = Done"
            "db' = update_link_tracking db (n + 1) (ev_now e)
                     (headers_get_user_agent (ev_request e)) (remote_addr (ev_request e)) lid"
            by auto
          with Click Read_Click \<open>result = Some p\<close> p Some False
          show thesis using write_click by blast
        qed
      qed
    qed
  next
    case Done
    with assms Click have "t' = Done" "db' = db" by auto
    then show thesis by (rule idle)
  qed
qed

lemma update_email_tracking_row:
  "email_tracking (update_email_tracking db now n ua ip tid) k =
     (if k = tid
      then map_option (\<lambda>r. r\<lparr>opened_at := Some now, open_count := Some n,
                                user_agent := Some ua, ip_address := ip\<rparr>)
             (email_tracking db k)
      else email_tracking db k)"
  by (simp add: update_email_tracking_def split: option.splits)

lemma update_email_tracking_links:
  "link_tracking (update_email_tracking db now n ua ip tid) = link_tracking db"
  by (simp add: update_email_tracking_def split: option.splits)

lemma update_link_tracking_row:
  "link_tracking (update_link_tracking db n now ua ip lid) k =
     (if k = lid
      then map_option (\<lambda>l. l\<lparr>click_count := Some n, last_clicked := Some now,
                                link_user_agent := Some ua, link_ip_address := ip\<rparr>)
             (link_tracking db k)
      else link_tracking db k)"
  by (simp add: update_link_tracking_def split: option.splits)

lemma update_link_tracking_emails:
  "email_tracking (update_link_tracking db n now ua ip lid) = email_tracking db"
  by (simp add: update_link_tracking_def split: option.splits)

lemma open_inv_step:
  assumes inv: "open_inv tracking_id rs ts db"
    and j: "j < length ts"
    and step: "serve_step (rs ! j) (ts ! j) db = (t', db')"
  shows "open_inv tracking_id rs (ts[j := t']) db'"
proof -
  obtain rt e where rq: "rs ! j = (rt, e)" by (cases "rs ! j")
  let ?D = "done_opens tracking_id rs ts"
  let ?D' = "done_opens tracking_id rs (ts[j := t'])"
  from inv obtain r where row: "email_tracking db tracking_id = Some r"
    and rinv: "email_row_inv r" and lo: "0 \<le> or_zero (open_count r)"
    and hi: "or_zero (open_count r) \<le> int (card ?D)"
    unfolding open_inv_def by auto
  from inv have fetched:
    "\<not> ev_faults e' Connect \<and> \<not> ev_faults e' Execute_Select
       \<and> (\<exists>c. res = Some c \<and> 0 \<le> or_zero c \<and> or_zero c \<le> int (card ?D))"
    if "i < length ts" and "rs ! i = (Track tracking_id, e')" and "ts ! i = Read_Open res"
    for i e' res
    unfolding open_inv_def using that by blast
  have keep: "ts ! j = Done \<longrightarrow> t' = Done"
    using step by (auto simp add: serve_step_done)
  have mono: "card ?D \<le> card ?D'" by (rule card_done_opens_mono [OF keep])
  have others: "\<not> ev_faults e' Connect \<and> \<not> ev_faults e' Execute_Select
       \<and> (\<exists>c. res = Some c \<and> 0 \<le> or_zero c \<and> or_zero c \<le> int (card ?D'))"
    if "i < length ts" and "i \<noteq> j" and "rs ! i = (Track tracking_id, e')"
      and "(ts[j := t']) ! i = Read_Open res" for i e' res
  proof -
    from that have "ts ! i = Read_Open res" by simp
    from fetched [OF that(1) that(3) this] mono show ?thesis by auto
  qed
  have unchanged: "open_inv tracking_id rs (ts[j := t']) db'"
    if same: "email_tracking db' tracking_id = Some r"
      and new: "\<And>res. rt = Track tracking_id \<Longrightarrow> t' = Read_Open res \<Longrightarrow>
                 \<not> ev_faults e Connect \<and> \<not> ev_faults e Execute_Select
                 \<and> res = Some (open_count r)"
  proof -
    have "\<not> ev_faults e' Connect \<and> \<not> ev_faults e' Execute_Select
       \<and> (\<exists>c. res = Some c \<and> 0 \<le> or_zero c \<and> or_zero c \<le> int (card ?D'))"
      if "i < length ts" and "rs ! i = (Track tracking_id, e')"
        and "(ts[j := t']) ! i = Read_Open res" for i e' res
    proof (cases "i = j")
      case False
      from others [OF that(1) False that(2) that(3)] show ?thesis .
    next
      case True
      with that j rq have "rt = Track tracking_id" "e' = e" "t' = Read_Open res" by simp_all
      with new [of res] lo hi mono show ?thesis by auto
    qed
    moreover have "or_zero (open_count r) \<le> int (card ?D')" using hi mono by simp
    ultimately show ?thesis
      unfolding open_inv_def using same rinv lo by auto
  qed
  from step rq have step': "serve_step (rt, e) (ts ! j) db = (t', db')" by simp
  from step' show ?thesis
  proof (cases rule: serve_step_cases)
    case (read_open tid)
    show ?thesis
    proof (rule unchanged)
      show "email_tracking db' tracking_id = Some r" using read_open row by simp
    next
      fix res assume "rt = Track tracking_id" "t' = Read_Open res"
      with read_open row
      show "\<not> ev_faults e Connect \<and> \<not> ev_faults e Execute_Select \<and> res = Some (open_count r)"
        by (simp add: select_open_count_def)
    qed
  next
    case (read_click lid)
    show ?thesis
    proof (rule unchanged)
      show "email_tracking db' tracking_id = Some r" using read_click row by simp
    next
      fix res assume "rt = Track tracking_id" "t' = Read_Open res"
      with read_click
      show "\<not> ev_faults e Connect \<and> \<not> ev_faults e Execute_Select \<and> res = Some (open_count r)"
        by simp
    qed
  next
    case (write_click lid url n)
    show ?thesis
    proof (rule unchanged)
      show "email_tracking db' tracking_id = Some r"
        using write_click row by (simp add: update_link_tracking_emails)
    next
      fix res assume "rt = Track tracking_id" "t' = Read_Open res"
      with write_click
      show "\<not> ev_faults e Connect \<and> \<not> ev_faults e Execute_Select \<and> res = Some (open_count r)"
        by simp
    qed
  next
    case idle
    show ?thesis
    proof (rule unchanged)
      show "email_tracking db' tracking_id = Some r" using idle row by simp
    next
      fix res assume "rt = Track tracking_id" "t' = Read_Open res"
      with idle
      show "\<not> ev_faults e Connect \<and> \<not> ev_faults e Execute_Select \<and> res = Some (open_count r)"
        by simp
    qed
  next
    case (write_open tid c)
    show ?thesis
    proof (cases "tid = tracking_id")
      case False
      show ?thesis
      proof (rule unchanged)
        show "email_tracking db' tracking_id = Some r"
          using write_open row False by (simp add: update_email_tracking_row)
      next
        fix res assume "rt = Track tracking_id" "t' = Read_Open res"
        with write_open
        show "\<not> ev_faults e Connect \<and> \<not> ev_faults e Execute_Select \<and> res = Some (open_count r)"
          by simp
      qed
    next
      case True
      have rsj: "rs ! j = (Track tracking_id, e)" using rq write_open True by simp
      from fetched [OF j rsj write_open(2)]
      have readok: "\<not> ev_faults e Connect" "\<not> ev_faults e Execute_Select"
        and clo: "0 \<le> or_zero c" and chi: "or_zero c \<le> int (card ?D)" by auto
      have ok: "store_ok (ev_faults e)"
        using readok write_open(3,4) by (simp add: store_ok_def)
      have notdone: "ts ! j \<noteq> Done" using write_open(2) by simp
      have card': "card ?D' = Suc (card ?D)"
        using card_done_opens_write [OF j notdone rsj ok] write_open(5) by simp
      let ?r' = "r\<lparr>opened_at := Some (ev_now e), open_count := Some (or_zero c + 1),
                   user_agent := Some (headers_get_user_agent (ev_request e)),
                   ip_address := remote_addr (ev_request e)\<rparr>"
      have row': "email_tracking db' tracking_id = Some ?r'"
        using write_open row True by (simp add: update_email_tracking_row)
      have rinv': "email_row_inv ?r'" using clo by (simp add: email_row_inv_def)
      have lo': "0 \<le> or_zero (open_count ?r')" using clo by simp
      have hi': "or_zero (open_count ?r') \<le> int (card ?D')" using chi card' by simp
      have "\<not> ev_faults e' Connect \<and> \<not> ev_faults e' Execute_Select
         \<and> (\<exists>c. res = Some c \<and> 0 \<le> or_zero c \<and> or_zero c \<le> int (card ?D'))"
        if "i < length ts" and "rs ! i = (Track tracking_id, e')"
          and "(ts[j := t']) ! i = Read_Open res" for i e' res
      proof (cases "i = j")
        case False
        from others [OF that(1) False that(2) that(3)] show ?thesis .
      next
        case True
        with that j write_open(5) show ?thesis by simp
      qed
      then show ?thesis
        unfolding open_inv_def using row' rinv' lo' hi' by auto
    qed
  qed
qed

lemma click_inv_step:
  assumes inv: "click_inv link_id rs ts db"
    and j: "j < length ts"
    and step: "serve_step (rs ! j) (ts ! j) db = (t', db')"
  shows "click_inv link_id rs (ts[j := t']) db'"
proof -
  obtain rt e where rq: "rs ! j = (rt, e)" by (cases "rs ! j")
  from inv obtain l where row: "link_tracking db link_id = Some l"
    and linv: "link_row_inv l" and lo: "0 \<le> or_zero (click_count l)"
    unfolding click_inv_def by auto
  from inv have fetched: "0 \<le> n"
    if "i < length ts" and "rs ! i = (Click link_id, e')"
      and "ts ! i = Read_Click (Some (url, Some n))" for i e' url n
    unfolding click_inv_def using that by blast
  have unchanged: "click_inv link_id rs (ts[j := t']) db'"
    if same: "link_tracking db' link_id = Some l"
      and new: "\<And>url n. rt = Click link_id \<Longrightarrow> t' = Read_Click (Some (url, Some n)) \<Longrightarrow>
                 click_count l = Some n"
  proof -
    have "0 \<le> n"
      if "i < length ts" and "rs ! i = (Click link_id, e')"
        and "(ts[j := t']) ! i = Read_Click (Some (url, Some n))" for i e' url n
    proof (cases "i = j")
      case False
      with that have "ts ! i = Read_Click (Some (url, Some n))" by simp
      from fetched [OF that(1) that(2) this] show ?thesis .
    next
      case True
      with that j rq have "rt = Click link_id" "t' = Read_Click (Some (url, Some n))"
        by simp_all
      from new [OF this] lo show ?thesis by simp
    qed
    then show ?thesis
      unfolding click_inv_def using same linv lo by auto
  qed
  from step rq have step': "serve_step (rt, e) (ts ! j) db = (t', db')" by simp
  from step' show ?thesis
  proof (cases rule: serve_step_cases)
    case (read_open tid)
    show ?thesis
    proof (rule unchanged)
      show "link_tracking db' link_id = Some l" using read_open row by simp
    next
      fix url n assume "rt = Click link_id" "t' = Read_Click (Some (url, Some n))"
      with read_open show "click_count l = Some n" by simp
    qed
  next
    case (write_open tid c)
    show ?thesis
    proof (rule unchanged)
      show "link_tracking db' link_id = Some l"
        using write_open row by (simp add: update_email_tracking_links)
    next
      fix url n assume "rt = Click link_id" "t' = Read_Click (Some (url, Some n))"
      with write_open show "click_count l = Some n" by simp
    qed
  next
    case (read_click lid)
    show ?thesis
    proof (rule unchanged)
      show "link_tracking db' link_id = Some l" using read_click row by simp
    next
      fix url n assume "rt = Click link_id" "t' = Read_Click (Some (url, Some n))"
      with read_click row show "click_count l = Some n"
        by (simp add: select_url_click_count_def)
    qed
  next
    case idle
    show ?thesis
    proof (rule unchanged)
      show "link_tracking db' link_id = Some l" using idle row by simp
    next
      fix url n assume "rt = Click link_id" "t' = Read_Click (Some (url, Some n))"
      with idle show "click_count l = Some n" by simp
    qed
  next
    case (write_click lid url n)
    show ?thesis
    proof (cases "lid = link_id")
      case False
      show ?thesis
      proof (rule unchanged)
        show "link_tracking db' link_id = Some l"
          using write_click row False by (simp add: update_link_tracking_row)
      next
        fix url' n' assume "rt = Click link_id" "t' = Read_Click (Some (url', Some n'))"
        with write_click show "click_count l = Some n'" by simp
      qed
    next
      case True
      have rsj: "rs ! j = (Click link_id, e)" using rq write_click True by simp
      from fetched [OF j rsj write_click(2)] have n0: "0 \<le> n" .
      let ?l' = "l\<lparr>click_count := Some (n + 1), last_clicked := Some (ev_now e),
                   link_user_agent := Some (headers_get_user_agent (ev_request e)),
                   link_ip_address := remote_addr (ev_request e)\<rparr>"
      have row': "link_tracking db' link_id = Some ?l'"
        using write_click row True by (simp add: update_link_tracking_row)
      have linv': "link_row_inv ?l'" using n0 by (simp add: link_row_inv_def)
      have lo': "0 \<le> or_zero (click_count ?l')" using n0 by simp
      have "0 \<le> n'"
        if "i < length ts" and "rs ! i = (Click link_id, e')"
          and "(ts[j := t']) ! i = Read_Click (Some (url', Some n'))" for i e' url' n'
      proof (cases "i = j")
        case False
        with that have "ts ! i = Read_Click (Some (url', Some n'))" by simp
        from fetched [OF that(1) that(2) this] show ?thesis .
      next
        case True
        with that j write_click(5) show ?thesis by simp
      qed
      then show ?thesis
        unfolding click_inv_def using row' linv' lo' by auto
    qed
  qed
qed

lemma run_interleaved_length:
  "run_interleaved sched rs (ts, db) = (ts', db') \<Longrightarrow> length ts' = length ts"
proof (induction sched arbitrary: ts db)
  case Nil
  then show ?case by simp
next
  case (Cons i sched)
  show ?case
  proof (cases "i < length rs \<and> i < length ts")
    case True
    obtain t1 db1 where st: "serve_step (rs ! i) (ts ! i) db = (t1, db1)"
      by (cases "serve_step (rs ! i) (ts ! i) db")
    from Cons.prems True st
    have "run_interleaved sched rs (ts[i := t1], db1) = (ts', db')" by simp
    from Cons.IH [OF this] show ?thesis by simp
  next
    case False
    with Cons.prems have "run_interleaved sched rs (ts, db) = (ts', db')" by auto
    from Cons.IH [OF this] show ?thesis .
  qed
qed

lemma open_inv_run:
  assumes "run_interleaved sched rs (ts, db) = (ts', db')"
    and "open_inv tracking_id rs ts db"
  shows "open_inv tracking_id rs ts' db'"
  using assms
proof (induction sched arbitrary: ts db)
  case Nil
  then show ?case by simp
next
  case (Cons i sched)
  show ?case
  proof (cases "i < length rs \<and> i < length ts")
    case True
    obtain t1 db1 where st: "serve_step (rs ! i) (ts ! i) db = (t1, db1)"
      by (cases "serve_step (rs ! i) (ts ! i) db")
    from Cons.prems(1) True st
    have run: "run_interleaved sched rs (ts[i := t1], db1) = (ts', db')" by simp
    from open_inv_step [OF Cons.prems(2) _ st] True
    have "open_inv tracking_id rs (ts[i := t1]) db1" by simp
    from Cons.IH [OF run this] show ?thesis .
  next
    case False
    with Cons.prems(1) have "run_interleaved sched rs (ts, db) = (ts', db')" by auto
    from Cons.IH [OF this Cons.prems(2)] show ?thesis .
  qed
qed

lemma click_inv_run:
  assumes "run_interleaved sched rs (ts, db) = (ts', db')"
    and "click_inv link_id rs ts db"
  shows "click_inv link_id rs ts' db'"
  using assms
proof (induction sched arbitrary: ts db)
  case Nil
  then show ?case by simp
next
  case (Cons i sched)
  show ?case
  proof (cases "i < length rs \<and> i < length ts")
    case True
    obtain t1 db1 where st: "serve_step (rs ! i) (ts ! i) db = (t1, db1)"
      by (cases "serve_step (rs ! i) (ts ! i) db")
    from Cons.prems(1) True st
    have run: "run_interleaved sched rs (ts[i := t1], db1) = (ts', db')" by simp
    from click_inv_step [OF Cons.prems(2) _ st] True
    have "click_inv link_id rs (ts[i := t1]) db1" by simp
    from Cons.IH [OF run this] show ?thesis .
  next
    case False
    with Cons.prems(1) have "run_interleaved sched rs (ts, db) = (ts', db')" by auto
    from Cons.IH [OF this Cons.prems(2)] show ?thesis .
  qed
qed

lemma done_opens_waiting: "done_opens tracking_id rs (replicate n Waiting) = {}"
  by (auto simp add: done_opens_def)

lemma serve_interleaved_email_row:
  assumes row: "email_tracking db tracking_id = Some r" and fresh: "fresh_email_row r"
  shows "\<exists>r'. email_tracking (serve_interleaved sched rs db) tracking_id = Some r'
            \<and> or_zero (open_count r') \<le> int (applied_opens tracking_id rs)
            \<and> email_row_inv r'"
proof -
  obtain ts' db' where run:
    "run_interleaved sched rs (replicate (length rs) Waiting, db) = (ts', db')"
    by (cases "run_interleaved sched rs (replicate (length rs) Waiting, db)")
  from fresh_email_row_inv [OF fresh]
  have init: "open_inv tracking_id rs (replicate (length rs) Waiting) db"
    unfolding open_inv_def using row by (auto simp add: done_opens_waiting)
  from open_inv_run [OF run init] obtain r' where
    r': "email_tracking db' tracking_id = Some r'" "email_row_inv r'"
      "or_zero (open_count r') \<le> int (card (done_opens tracking_id rs ts'))"
    unfolding open_inv_def by auto
  from run_interleaved_length [OF run] have "length ts' = length rs" by simp
  from card_done_opens_le [OF this, of tracking_id] r'(3)
  have "or_zero (open_count r') \<le> int (applied_opens tracking_id rs)" by simp
  with r'(1,2) show ?thesis
    unfolding serve_interleaved_def run by simp
qed

lemma serve_interleaved_link_row:
  assumes row: "link_tracking db link_id = Some l" and fresh: "fresh_link_row l"
  shows "\<exists>l'. link_tracking (serve_interleaved sched rs db) link_id = Some l'
            \<and> link_row_inv l'"
proof -
  obtain ts' db' where run:
    "run_interleaved sched rs (replicate (length rs) Waiting, db) = (ts', db')"
    by (cases "run_interleaved sched rs (replicate (length rs) Waiting, db)")
  from fresh_link_row_inv [OF fresh]
  have init: "click_inv link_id rs (replicate (length rs) Waiting) db"
    unfolding click_inv_def using row by auto
  from click_inv_run [OF run init] show ?thesis
    unfolding click_inv_def serve_interleaved_def run by auto
qed

lemma run_interleaved_twice:
  assumes "j < length rs" and "j < length ts" and "ts ! j = Waiting" and "rs ! j = (rt, e)"
  shows "snd (run_interleaved (j # j # sched) rs (ts, db))
         = snd (run_interleaved sched rs
                 (ts[j := fst (serve_step (rt, e) (fst (serve_step (rt, e) Waiting db))
                                (snd (serve_step (rt, e) Waiting db)))],
                  snd (serve rt e db)))"
  using assms by (simp add: serve_two_steps split_beta)

lemma serial_from_serve_all:
  assumes "length ts = length rs"
    and "\<forall>i. j \<le> i \<and> i < length rs \<longrightarrow> ts ! i = Waiting"
    and "j \<le> length rs"
    and "k = length rs - j"
  shows "snd (run_interleaved (concat (map (\<lambda>i. [i, i]) [j..<length rs])) rs (ts, db))
         = serve_all (drop j rs) db"
  using assms
proof (induction k arbitrary: j ts db)
  case 0
  then show ?case by simp
next
  case (Suc k)
  then have jlt: "j < length rs" by simp
  obtain rt e where rq: "rs ! j = (rt, e)" by (cases "rs ! j")
  let ?t2 = "fst (serve_step (rt, e) (fst (serve_step (rt, e) Waiting db))
                                (snd (serve_step (rt, e) Waiting db)))"
  let ?db1 = "snd (serve rt e db)"
  let ?ts1 = "ts[j := ?t2]"
  have waiting: "ts ! j = Waiting" using Suc.prems(2) jlt by simp
  have jts: "j < length ts" using jlt Suc.prems(1) by simp
  have upt: "[j..<length rs] = j # [Suc j..<length rs]" using jlt by (simp add: upt_conv_Cons)
  have run: "snd (run_interleaved (concat (map (\<lambda>i. [i, i]) [j..<length rs])) rs (ts, db))
             = snd (run_interleaved (concat (map (\<lambda>i. [i, i]) [Suc j..<length rs])) rs
                 (?ts1, ?db1))"
    unfolding upt using run_interleaved_twice [OF jlt jts waiting rq] by simp
  have len1: "length ?ts1 = length rs" using Suc.prems(1) by simp
  have rdy1: "\<forall>i. Suc j \<le> i \<and> i < length rs \<longrightarrow> ?ts1 ! i = Waiting"
    using Suc.prems(2) by simp
  have k: "k = length rs - Suc j" using Suc.prems(4) by simp
  have ih: "snd (run_interleaved (concat (map (\<lambda>i. [i, i]) [Suc j..<length rs])) rs
                 (?ts1, ?db1))
            = serve_all (drop (Suc j) rs) ?db1"
    using Suc.IH [OF len1 rdy1 _ k] jlt by simp
  have drop: "drop j rs = (rt, e) # drop (Suc j) rs"
    using Cons_nth_drop_Suc [OF jlt] rq by simp
  show ?case unfolding run ih drop by simp
qed

lemma serve_interleaved_serial:
  "serve_interleaved (serial_schedule (length rs)) rs db = serve_all rs db"
  unfolding serve_interleaved_def serial_schedule_def
  using serial_from_serve_all [where j = 0 and ts = "replicate (length rs) Waiting"]
  by simp

section \<open>Properties of the two trackers\<close>

subsection \<open>The open tracker\<close>

text \<open>
  C6. For every request to the open tracker, whichever store operation fails during the
  lookup or the update and whatever the database holds, the handler answers with the
  fixed pixel as \<^verbatim>\<open>image/gif\<close> with status 200: the failure is absorbed inside the handler
  and never shows in the response.
\<close>

theorem track_email_absorbs_store_failure:
  "fst (track_email fails req now tracking_id db) = Response TRACKING_PIXEL ''image/gif''
   \<and> status_code (fst (track_email fails req now tracking_id db)) = 200"
  by (simp add: track_email_response)

theorem track_email_absorbs_store_failure_witness:
  "fst (track_email_try commit_fails example_request 3 ''abc123'' example_db)
     = Inl (OperationalError Commit)
   \<and> fst (track_email commit_fails example_request 3 ''abc123'' example_db)
       = Response TRACKING_PIXEL ''image/gif''
   \<and> status_code (fst (track_email commit_fails example_request 3 ''abc123'' example_db)) = 200"
proof -
  have raised: "fst (track_email_try commit_fails example_request 3 ''abc123'' example_db)
                  = Inl (OperationalError Commit)"
    by (simp add: track_email_try_def select_open_count_def example_db_def
        commit_fails_def Let_def)
  from track_email_absorbs_store_failure [of commit_fails example_request 3 "''abc123''" example_db]
    raised
  show ?thesis by blast
qed

text \<open>
  C4. For an identifier with no tracking record, any number of open events, with or
  without store failures, leaves the whole database as it was (no record created, none
  changed), and every one of the requests is answered with the fixed pixel as
  \<^verbatim>\<open>image/gif\<close>.
\<close>

theorem track_email_unknown_id:
  assumes "email_tracking db tracking_id = None"
  shows "track_email_seq es tracking_id db =
           (replicate (length es) (Response TRACKING_PIXEL ''image/gif''), db)"
  using assms by (induction es) (simp_all add: track_email_absent)

theorem track_email_unknown_id_witness:
  "email_tracking example_db ''nobody'' = None
   \<and> track_email_seq [example_event 1, example_event 2, example_event 3] ''nobody'' example_db
       = (replicate (length [example_event 1, example_event 2, example_event 3])
            (Response TRACKING_PIXEL ''image/gif''), example_db)"
proof -
  have h: "email_tracking example_db ''nobody'' = None"
    by (simp add: example_db_def)
  from track_email_unknown_id [OF h, of "[example_event 1, example_event 2, example_event 3]"] h
  show ?thesis by blast
qed

text \<open>
  C2. For an identifier with an existing tracking record: one open event that meets no
  store failure sets the open count to the old count (\<^verbatim>\<open>NULL\<close> read as 0) plus exactly 1;
  and when the count starts at 0, N such events handled one after the other leave the
  open count at N and, for N > 0, the opened timestamp at the timestamp of the last
  event.
\<close>

theorem track_email_sequential_opens:
  assumes "email_tracking db tracking_id = Some r"
  shows "(store_ok fails \<longrightarrow>
            map_option open_count
              (email_tracking (snd (track_email fails req now tracking_id db)) tracking_id)
            = Some (Some (or_zero (open_count r) + 1)))
       \<and> (open_count r = Some 0 \<and> list_all (\<lambda>e. store_ok (ev_faults e)) es \<longrightarrow>
            (\<exists>r'. email_tracking (snd (track_email_seq es tracking_id db)) tracking_id = Some r'
               \<and> open_count r' = Some (int (length es))
               \<and> (es \<noteq> [] \<longrightarrow> opened_at r' = Some (ev_now (last es)))))"
proof (intro conjI impI)
  assume ok: "store_ok fails"
  from track_email_present_ok [OF assms ok, of req now]
  show "map_option open_count
          (email_tracking (snd (track_email fails req now tracking_id db)) tracking_id)
        = Some (Some (or_zero (open_count r) + 1))"
    by simp
next
  assume a: "open_count r = Some 0 \<and> list_all (\<lambda>e. store_ok (ev_faults e)) es"
  show "\<exists>r'. email_tracking (snd (track_email_seq es tracking_id db)) tracking_id = Some r'
          \<and> open_count r' = Some (int (length es))
          \<and> (es \<noteq> [] \<longrightarrow> opened_at r' = Some (ev_now (last es)))"
  proof (cases "es = []")
    case True
    then show ?thesis using assms a by simp
  next
    case False
    from a have oks: "list_all (\<lambda>e. store_ok (ev_faults e)) es" by simp
    from track_email_seq_ok [OF oks assms False] a show ?thesis by auto
  qed
qed

theorem track_email_sequential_opens_witness:
  "email_tracking example_db ''abc123'' = Some example_row
   \<and> store_ok no_faults
   \<and> open_count example_row = Some 0
   \<and> list_all (\<lambda>e. store_ok (ev_faults e)) [example_event 11, example_event 12]
   \<and> map_option open_count
       (email_tracking (snd (track_email no_faults example_request 11 ''abc123'' example_db))
          ''abc123'')
       = Some (Some 1)
   \<and> (\<exists>r'. email_tracking
              (snd (track_email_seq [example_event 11, example_event 12] ''abc123'' example_db))
              ''abc123'' = Some r'
          \<and> open_count r' = Some 2 \<and> opened_at r' = Some 12)"
proof -
  have h1: "email_tracking example_db ''abc123'' = Some example_row"
    by (simp add: example_db_def)
  have h2: "store_ok no_faults" by (rule store_ok_no_faults)
  have h3: "open_count example_row = Some 0" by (simp add: example_row_def)
  have h4: "list_all (\<lambda>e. store_ok (ev_faults e)) [example_event 11, example_event 12]"
    by (simp add: example_event_def store_ok_no_faults)
  note t = track_email_sequential_opens
    [OF h1, of no_faults example_request 11 "[example_event 11, example_event 12]"]
  from t h2 have a: "map_option open_count
       (email_tracking (snd (track_email no_faults example_request 11 ''abc123'' example_db))
          ''abc123'')
       = Some (Some 1)"
    by (simp add: h3)
  from t h3 h4 have b: "\<exists>r'. email_tracking
              (snd (track_email_seq [example_event 11, example_event 12] ''abc123'' example_db))
              ''abc123'' = Some r'
          \<and> open_count r' = Some 2 \<and> opened_at r' = Some 12"
    by (simp add: example_event_def)
  from h1 h2 h3 h4 a b show ?thesis by blast
qed

text \<open>
  C10. The two handlers treat a \<^verbatim>\<open>NULL\<close> counter differently. For an existing tracking
  record whose open count is \<^verbatim>\<open>NULL\<close>, an open event reads the count as 0 and stores 1. For
  an existing link record whose click count is \<^verbatim>\<open>NULL\<close>, the increment raises
  \<^verbatim>\<open>TypeError\<close>: the answer is the 500 response \<^verbatim>\<open>Error processing link\<close>, no redirect is
  issued, and the database is left as it was.
\<close>

theorem null_counter_open_vs_click:
  "(email_tracking db tracking_id = Some r \<and> open_count r = None \<longrightarrow>
      map_option open_count
        (email_tracking (snd (track_email no_faults req now tracking_id db)) tracking_id)
      = Some (Some 1))
   \<and> (link_tracking db link_id = Some l \<and> click_count l = None \<longrightarrow>
        fst (track_link_click_try no_faults req now link_id db) = Inl TypeError
        \<and> track_link_click no_faults req now link_id db
            = (Body_Status ''Error processing link'' 500, db)
        \<and> \<not> is_redirect (fst (track_link_click no_faults req now link_id db)))"
proof (intro conjI impI)
  assume a: "email_tracking db tracking_id = Some r \<and> open_count r = None"
  then have row: "email_tracking db tracking_id = Some r" by simp
  from track_email_present_ok [OF row store_ok_no_faults, of req now] a
  show "map_option open_count
          (email_tracking (snd (track_email no_faults req now tracking_id db)) tracking_id)
        = Some (Some 1)"
    by simp
next
  assume a: "link_tracking db link_id = Some l \<and> click_count l = None"
  then show "fst (track_link_click_try no_faults req now link_id db) = Inl TypeError"
    by (simp add: track_link_click_try_def redirect_def
      select_url_click_count_def no_faults_def Let_def)
next
  assume a: "link_tracking db link_id = Some l \<and> click_count l = None"
  then show "track_link_click no_faults req now link_id db
               = (Body_Status ''Error processing link'' 500, db)"
    by (simp add: track_link_click_null_count)
next
  assume a: "link_tracking db link_id = Some l \<and> click_count l = None"
  then show "\<not> is_redirect (fst (track_link_click no_faults req now link_id db))"
    by (simp add: track_link_click_null_count)
qed

theorem null_counter_open_vs_click_witness:
  "email_tracking example_db_null ''abc123'' = Some (example_row\<lparr>open_count := None\<rparr>)
   \<and> open_count (example_row\<lparr>open_count := None\<rparr>) = None
   \<and> link_tracking example_db_null ''lnk1'' = Some (example_link\<lparr>click_count := None\<rparr>)
   \<and> click_count (example_link\<lparr>click_count := None\<rparr>) = None
   \<and> map_option open_count
        (email_tracking (snd (track_email no_faults example_request 5 ''abc123'' example_db_null))
           ''abc123'')
      = Some (Some 1)
   \<and> track_link_click no_faults example_request 5 ''lnk1'' example_db_null
      = (Body_Status ''Error processing link'' 500, example_db_null)"
proof -
  have h1: "email_tracking example_db_null ''abc123'' = Some (example_row\<lparr>open_count := None\<rparr>)
              \<and> open_count (example_row\<lparr>open_count := None\<rparr>) = None"
    by (simp add: example_db_null_def)
  have h2: "link_tracking example_db_null ''lnk1'' = Some (example_link\<lparr>click_count := None\<rparr>)
              \<and> click_count (example_link\<lparr>click_count := None\<rparr>) = None"
    by (simp add: example_db_null_def)
  note t = null_counter_open_vs_click
    [of example_db_null "''abc123''" "example_row\<lparr>open_count := None\<rparr>" example_request 5
        "''lnk1''" "example_link\<lparr>click_count := None\<rparr>"]
  from t h1 h2 show ?thesis by blast
qed

text \<open>
  C8. An event never changes the columns written at creation: whatever \<^verbatim>\<open>track_email\<close>
  does, every tracking row keeps its recipient address, subject and sent timestamp, and
  whatever \<^verbatim>\<open>track_link_click\<close> does, every link row keeps its original URL, email
  identifier, recipient address and creation timestamp. No row appears or disappears.
\<close>

theorem creation_fields_unchanged:
  "map_option email_creation_fields
       (email_tracking (snd (track_email fails req now tracking_id db)) k)
     = map_option email_creation_fields (email_tracking db k)
   \<and> map_option link_creation_fields
       (link_tracking (snd (track_link_click fails req now link_id db)) k')
     = map_option link_creation_fields (link_tracking db k')"
proof
  show "map_option email_creation_fields
       (email_tracking (snd (track_email fails req now tracking_id db)) k)
     = map_option email_creation_fields (email_tracking db k)"
    by (auto simp add: track_email_def track_email_try_def select_open_count_def Let_def
        update_email_tracking_def email_creation_fields_def split: option.splits)
next
  show "map_option link_creation_fields
       (link_tracking (snd (track_link_click fails req now link_id db)) k')
     = map_option link_creation_fields (link_tracking db k')"
    by (auto simp add: track_link_click_def track_link_click_try_def redirect_def
        select_url_click_count_def Let_def update_link_tracking_def
        link_creation_fields_def split: option.splits)
qed

theorem creation_fields_unchanged_witness:
  "map_option email_creation_fields (email_tracking example_db ''abc123'')
     = Some (''a@x.com'', ''Hello'', 100)
   \<and> map_option email_creation_fields
        (email_tracking (snd (track_email no_faults example_request 3 ''abc123'' example_db))
           ''abc123'')
      = Some (''a@x.com'', ''Hello'', 100)
   \<and> map_option link_creation_fields (link_tracking example_db ''lnk1'')
      = Some (''https://example.com/promo'', ''abc123'', ''a@x.com'', 100)
   \<and> map_option link_creation_fields
        (link_tracking (snd (track_link_click no_faults example_request 3 ''lnk1'' example_db))
           ''lnk1'')
      = Some (''https://example.com/promo'', ''abc123'', ''a@x.com'', 100)"
proof -
  have e: "map_option email_creation_fields (email_tracking example_db ''abc123'')
             = Some (''a@x.com'', ''Hello'', 100)"
    by (simp add: example_db_def example_row_def email_creation_fields_def)
  have l: "map_option link_creation_fields (link_tracking example_db ''lnk1'')
             = Some (''https://example.com/promo'', ''abc123'', ''a@x.com'', 100)"
    by (simp add: example_db_def example_link_def link_creation_fields_def)
  from creation_fields_unchanged
    [of no_faults example_request 3 "''abc123''" example_db "''abc123''" "''lnk1''" "''lnk1''"]
    e l
  show ?thesis by simp
qed

subsection \<open>The click tracker\<close>

text \<open>
  C5. For an identifier with no link record, a click event whose lookup reaches the
  store is answered with status 404 and the plain body \<^verbatim>\<open>Link not found\<close>, and the
  database is left exactly as it was: no row created, no row changed.
\<close>

theorem track_link_click_unknown_id:
  assumes "link_tracking db link_id = None"
    and "\<not> fails Connect" and "\<not> fails Execute_Select"
  shows "track_link_click fails req now link_id db = (Body_Status ''Link not found'' 404, db)
         \<and> status_code (fst (track_link_click fails req now link_id db)) = 404"
  using assms
  by (simp add: track_link_click_def track_link_click_try_def redirect_def
      select_url_click_count_def
      Let_def)

theorem track_link_click_unknown_id_witness:
  "link_tracking example_db ''nolink'' = None
   \<and> \<not> no_faults Connect \<and> \<not> no_faults Execute_Select
   \<and> track_link_click no_faults example_request 9 ''nolink'' example_db
       = (Body_Status ''Link not found'' 404, example_db)
   \<and> status_code (fst (track_link_click no_faults example_request 9 ''nolink'' example_db)) = 404"
proof -
  have h1: "link_tracking example_db ''nolink'' = None" by (simp add: example_db_def)
  have h2: "\<not> no_faults Connect" by (simp add: no_faults_def)
  have h3: "\<not> no_faults Execute_Select" by (simp add: no_faults_def)
  from track_link_click_unknown_id [OF h1 h2 h3, of example_request 9] h1 h2 h3
  show ?thesis by blast
qed



text \<open>
  C3. A click on an identifier with an existing link record is to count the click and
  answer with a redirect to the stored URL. Evaluated on a link record whose click count
  is \<^verbatim>\<open>NULL\<close>, the handler does neither: it answers with status 500 and writes nothing,
  where \<^verbatim>\<open>track_email\<close> reads a \<^verbatim>\<open>NULL\<close> count as 0.
\<close>

theorem track_link_click_null_count_no_redirect:
  "link_tracking example_db_null ''lnk1'' = Some (example_link\<lparr>click_count := None\<rparr>)
   \<and> \<not> is_redirect (fst (track_link_click no_faults example_request 7 ''lnk1'' example_db_null))
   \<and> status_code (fst (track_link_click no_faults example_request 7 ''lnk1'' example_db_null))
       = 500
   \<and> snd (track_link_click no_faults example_request 7 ''lnk1'' example_db_null)
       = example_db_null"
  by (simp add: track_link_click_def track_link_click_try_def select_url_click_count_def
      example_db_null_def no_faults_def Let_def)

text \<open>
  Where the handler does redirect: the click count is not \<^verbatim>\<open>NULL\<close>, no store operation
  fails, and the stored URL holds no carriage return or line feed. The click is then
  counted exactly once, the timestamp is the event's, and the URL is left as it was.
\<close>

lemma track_link_click_valid_redirect:
  assumes "link_tracking db link_id = Some l" and "click_count l = Some n"
    and "CHR 0x0D \<notin> set (original_url l)" and "CHR 0x0A \<notin> set (original_url l)"
  shows "fst (track_link_click no_faults req now link_id db) = Redirect (original_url l)
         \<and> status_code (fst (track_link_click no_faults req now link_id db)) = 302
         \<and> (\<exists>l'. link_tracking (snd (track_link_click no_faults req now link_id db)) link_id
                    = Some l'
                \<and> click_count l' = Some (n + 1)
                \<and> last_clicked l' = Some now
                \<and> original_url l' = original_url l)"
  using track_link_click_present_ok [OF assms(1,2) store_ok_no_faults, of req now] assms(3,4)
  by (simp add: redirect_def)

text \<open>
  A stored URL with a carriage return or a line feed: the click is counted and
  committed, then \<^verbatim>\<open>redirect\<close> raises and the answer is the 500 response.
\<close>

lemma track_link_click_refused_url:
  assumes "link_tracking db link_id = Some l" and "click_count l = Some n"
    and "CHR 0x0D \<in> set (original_url l) \<or> CHR 0x0A \<in> set (original_url l)"
  shows "fst (track_link_click no_faults req now link_id db)
           = Body_Status ''Error processing link'' 500
         \<and> (\<exists>l'. link_tracking (snd (track_link_click no_faults req now link_id db)) link_id
                    = Some l'
                \<and> click_count l' = Some (n + 1))"
  using track_link_click_present_ok [OF assms(1,2) store_ok_no_faults, of req now] assms(3)
  by (auto simp add: redirect_def)

subsection \<open>Invariants\<close>

text \<open>
  C9, as stated, fails for the open count: two open events for a freshly created record,
  both applied, whose reads both come before either write, leave the open count at 1.
\<close>

theorem interleaved_opens_undercount:
  "email_tracking example_db ''abc123'' = Some example_row
   \<and> fresh_email_row example_row
   \<and> applied_opens ''abc123''
        [(Track ''abc123'', example_event 1), (Track ''abc123'', example_event 2)] = 2
   \<and> map_option open_count
        (email_tracking
           (serve_interleaved [0, 1, 0, 1]
              [(Track ''abc123'', example_event 1), (Track ''abc123'', example_event 2)]
              example_db) ''abc123'')
       = Some (Some 1)"
  by (simp add: serve_interleaved_def example_db_def example_row_def fresh_email_row_def
      applied_opens_def example_event_def store_ok_def no_faults_def
      select_open_count_def update_email_tracking_def)

text \<open>
  C9, amended. Start from a database in which a tracking record is as freshly created.
  After any list of open and click requests to any identifiers, with or without store
  failures, handled one after the other, that record's open count (\<^verbatim>\<open>NULL\<close> read as 0)
  is the number of open events for it that were applied; when the requests' reads and
  writes interleave in any order, and at any point of such a run, the open count is at
  most that number. Either way its opened timestamp is non-null exactly when its open
  count is positive. Likewise a freshly created link record has, in every state so
  reached, a positive click count exactly when its last-clicked timestamp is non-null.
\<close>

theorem record_invariants_reachable:
  "(email_tracking db tracking_id = Some r \<and> fresh_email_row r \<longrightarrow>
      (\<exists>r'. email_tracking (serve_all evs db) tracking_id = Some r'
          \<and> or_zero (open_count r') = int (applied_opens tracking_id evs)
          \<and> email_row_inv r')
      \<and> (\<exists>r'. email_tracking (serve_interleaved sched evs db) tracking_id = Some r'
          \<and> or_zero (open_count r') \<le> int (applied_opens tracking_id evs)
          \<and> email_row_inv r'))
   \<and> (link_tracking db link_id = Some l \<and> fresh_link_row l \<longrightarrow>
      (\<exists>l'. link_tracking (serve_all evs db) link_id = Some l' \<and> link_row_inv l')
      \<and> (\<exists>l'. link_tracking (serve_interleaved sched evs db) link_id = Some l'
          \<and> link_row_inv l'))"
proof (intro conjI impI)
  assume a: "email_tracking db tracking_id = Some r \<and> fresh_email_row r"
  then have "email_row_inv r" "or_zero (open_count r) = 0"
    using fresh_email_row_inv by simp_all
  with a serve_all_email_row [of db tracking_id r evs]
  show "\<exists>r'. email_tracking (serve_all evs db) tracking_id = Some r'
          \<and> or_zero (open_count r') = int (applied_opens tracking_id evs)
          \<and> email_row_inv r'" by simp
next
  assume a: "email_tracking db tracking_id = Some r \<and> fresh_email_row r"
  then show "\<exists>r'. email_tracking (serve_interleaved sched evs db) tracking_id = Some r'
          \<and> or_zero (open_count r') \<le> int (applied_opens tracking_id evs)
          \<and> email_row_inv r'"
    using serve_interleaved_email_row by blast
next
  assume a: "link_tracking db link_id = Some l \<and> fresh_link_row l"
  then have "link_row_inv l" "or_zero (click_count l) = 0"
    using fresh_link_row_inv by simp_all
  with a serve_all_link_row [of db link_id l evs]
  show "\<exists>l'. link_tracking (serve_all evs db) link_id = Some l' \<and> link_row_inv l'" by simp
next
  assume a: "link_tracking db link_id = Some l \<and> fresh_link_row l"
  then show "\<exists>l'. link_tracking (serve_interleaved sched evs db) link_id = Some l'
          \<and> link_row_inv l'"
    using serve_interleaved_link_row by blast
qed

theorem record_invariants_reachable_witness:
  "email_tracking example_db ''abc123'' = Some example_row \<and> fresh_email_row example_row
   \<and> link_tracking example_db ''lnk1'' = Some example_link \<and> fresh_link_row example_link
   \<and> applied_opens ''abc123''
        [(Track ''abc123'', example_event 1), (Click ''lnk1'', example_event 2),
         (Track ''abc123'', (example_event 3)\<lparr>ev_faults := commit_fails\<rparr>),
         (Track ''abc123'', example_event 4)] = 2
   \<and> (\<exists>r'. email_tracking
              (serve_all
                 [(Track ''abc123'', example_event 1), (Click ''lnk1'', example_event 2),
                  (Track ''abc123'', (example_event 3)\<lparr>ev_faults := commit_fails\<rparr>),
                  (Track ''abc123'', example_event 4)] example_db) ''abc123'' = Some r'
          \<and> or_zero (open_count r') = 2 \<and> email_row_inv r')
   \<and> (\<exists>r'. email_tracking
              (serve_interleaved [0, 3, 1, 0, 2, 3, 1, 2]
                 [(Track ''abc123'', example_event 1), (Click ''lnk1'', example_event 2),
                  (Track ''abc123'', (example_event 3)\<lparr>ev_faults := commit_fails\<rparr>),
                  (Track ''abc123'', example_event 4)] example_db) ''abc123'' = Some r'
          \<and> or_zero (open_count r') \<le> 2 \<and> email_row_inv r')
   \<and> (\<exists>l'. link_tracking
              (serve_all
                 [(Track ''abc123'', example_event 1), (Click ''lnk1'', example_event 2),
                  (Track ''abc123'', (example_event 3)\<lparr>ev_faults := commit_fails\<rparr>),
                  (Track ''abc123'', example_event 4)] example_db) ''lnk1'' = Some l'
          \<and> link_row_inv l')
   \<and> (\<exists>l'. link_tracking
              (serve_interleaved [0, 3, 1, 0, 2, 3, 1, 2]
                 [(Track ''abc123'', example_event 1), (Click ''lnk1'', example_event 2),
                  (Track ''abc123'', (example_event 3)\<lparr>ev_faults := commit_fails\<rparr>),
                  (Track ''abc123'', example_event 4)] example_db) ''lnk1'' = Some l'
          \<and> link_row_inv l')"
proof -
  let ?evs = "[(Track ''abc123'', example_event 1), (Click ''lnk1'', example_event 2),
         (Track ''abc123'', (example_event 3)\<lparr>ev_faults := commit_fails\<rparr>),
         (Track ''abc123'', example_event 4)]"
  let ?sched = "[0, 3, 1, 0, 2, 3, 1, 2] :: nat list"
  have h1: "email_tracking example_db ''abc123'' = Some example_row \<and> fresh_email_row example_row"
    by (simp add: example_db_def example_row_def fresh_email_row_def)
  have h2: "link_tracking example_db ''lnk1'' = Some example_link \<and> fresh_link_row example_link"
    by (simp add: example_db_def example_link_def fresh_link_row_def)
  have n: "applied_opens ''abc123'' ?evs = 2"
    by (simp add: applied_opens_def example_event_def store_ok_def no_faults_def
        commit_fails_def)
  note t = record_invariants_reachable
    [of example_db "''abc123''" example_row ?evs ?sched "''lnk1''" example_link]
  from t h1 have a: "(\<exists>r'. email_tracking (serve_all ?evs example_db) ''abc123'' = Some r'
          \<and> or_zero (open_count r') = 2 \<and> email_row_inv r')
      \<and> (\<exists>r'. email_tracking (serve_interleaved ?sched ?evs example_db) ''abc123'' = Some r'
          \<and> or_zero (open_count r') \<le> 2 \<and> email_row_inv r')"
    unfolding n by simp
  from t h2 have b: "(\<exists>l'. link_tracking (serve_all ?evs example_db) ''lnk1'' = Some l'
          \<and> link_row_inv l')
      \<and> (\<exists>l'. link_tracking (serve_interleaved ?sched ?evs example_db) ''lnk1'' = Some l'
          \<and> link_row_inv l')"
    by blast
  from h1 h2 n a b show ?thesis by blast
qed

subsection \<open>Concurrent open events\<close>

text \<open>
  C1, as stated, fails: the handler reads the count and later writes the count it
  computed, and nothing holds the row in between. Two requests for the same identifier
  that both read before either writes leave the count at the start plus 1, not plus 2.
\<close>

theorem track_email_concurrent_lost_update:
  "complete_schedule 2 [0, 1, 0, 1]
   \<and> map_option open_count (email_tracking example_db ''abc123'') = Some (Some 0)
   \<and> map_option open_count
        (email_tracking
           (track_email_concurrent [0, 1, 0, 1] ''abc123''
              [(example_request, 1), (example_request, 2)] example_db) ''abc123'')
       = Some (Some 1)
   \<and> map_option open_count
        (email_tracking
           (track_email_concurrent [0, 1, 0, 1] ''abc123''
              [(example_request, 1), (example_request, 2)] example_db) ''abc123'')
       \<noteq> Some (Some (0 + 2))"
  by (simp add: complete_schedule_def numeral_2_eq_2 track_email_concurrent_def example_db_def
      example_row_def select_open_count_def track_email_write_def
      update_email_tracking_def)

text \<open>
  C1, amended. For an identifier with an existing record, M > 0 open events that meet no
  store failure and whose reads and writes interleave in any order leave the open count
  at least 1 and at most M above the starting count (\<^verbatim>\<open>NULL\<close> read as 0): no event is
  counted twice, but updates can be lost. When the requests run one after the other
  the outcome is that of the sequential server, and the count is the starting count
  plus M.
\<close>

theorem track_email_concurrent_count:
  assumes row: "email_tracking db tracking_id = Some r" and ne: "rs \<noteq> []"
  shows "(complete_schedule (length rs) sched \<longrightarrow>
            (\<exists>r' k. email_tracking (track_email_concurrent sched tracking_id rs db) tracking_id
                       = Some r'
                 \<and> open_count r' = Some k
                 \<and> or_zero (open_count r) + 1 \<le> k
                 \<and> k \<le> or_zero (open_count r) + int (length rs)))
       \<and> track_email_concurrent (serial_schedule (length rs)) tracking_id rs db
           = snd (track_email_seq (map accepted_event rs) tracking_id db)
       \<and> (\<exists>r'. email_tracking (track_email_concurrent (serial_schedule (length rs))
                     tracking_id rs db) tracking_id = Some r'
              \<and> open_count r' = Some (or_zero (open_count r) + int (length rs)))"
proof (intro conjI impI)
  assume "complete_schedule (length rs) sched"
  from track_email_concurrent_bounds [OF row ne this]
  show "\<exists>r' k. email_tracking (track_email_concurrent sched tracking_id rs db) tracking_id
                       = Some r'
                 \<and> open_count r' = Some k
                 \<and> or_zero (open_count r) + 1 \<le> k
                 \<and> k \<le> or_zero (open_count r) + int (length rs)" .
next
  show "track_email_concurrent (serial_schedule (length rs)) tracking_id rs db
           = snd (track_email_seq (map accepted_event rs) tracking_id db)"
    by (rule serial_schedule_is_sequential)
next
  let ?db' = "track_email_concurrent (serial_schedule (length rs)) tracking_id rs db"
  from track_email_concurrent_bounds [OF row ne complete_serial_schedule]
  obtain r1 k where r1: "email_tracking ?db' tracking_id = Some r1" "open_count r1 = Some k"
    by blast
  from serial_schedule_count [OF row, of rs] obtain r2 where
    r2: "email_tracking ?db' tracking_id = Some r2"
      "or_zero (open_count r2) = or_zero (open_count r) + int (length rs)" by blast
  from r1 r2 have "open_count r1 = Some (or_zero (open_count r) + int (length rs))" by auto
  with r1(1) show "\<exists>r'. email_tracking ?db' tracking_id = Some r'
              \<and> open_count r' = Some (or_zero (open_count r) + int (length rs))" by blast
qed

theorem track_email_concurrent_count_witness:
  "email_tracking example_db ''abc123'' = Some example_row
   \<and> [(example_request, 1), (example_request, 2)] \<noteq> []
   \<and> complete_schedule (length [(example_request, 1::nat), (example_request, 2)]) [0, 1, 0, 1]
   \<and> (\<exists>r' k. email_tracking
                (track_email_concurrent [0, 1, 0, 1] ''abc123''
                   [(example_request, 1), (example_request, 2)] example_db) ''abc123''
               = Some r'
            \<and> open_count r' = Some k
            \<and> or_zero (open_count example_row) + 1 \<le> k
            \<and> k \<le> or_zero (open_count example_row)
                   + int (length [(example_request, 1::nat), (example_request, 2)]))"
proof -
  have h1: "email_tracking example_db ''abc123'' = Some example_row"
    by (simp add: example_db_def)
  have h2: "[(example_request, 1::nat), (example_request, 2)] \<noteq> []" by simp
  have h3: "complete_schedule (length [(example_request, 1::nat), (example_request, 2)])
              [0, 1, 0, 1]"
    by (simp add: complete_schedule_def numeral_2_eq_2)
  note t = track_email_concurrent_count [OF h1 h2, of "[0, 1, 0, 1]", THEN conjunct1]
  from t [rule_format, OF h3] h1 h2 h3 show ?thesis by blast
qed

end
